theory Spec2Isabelle
  imports Main "HOL-Library.Char_ord" "HOL-Library.List_Lexorder" "HOL-Library.Word"
begin

section \<open>Values of the marketplace validator\<close>

text \<open>
  The script \<^verbatim>\<open>scripts/validate-marketplace-pr.mjs\<close> reads two documents with
  \<^verbatim>\<open>JSON.parse\<close> and walks the parsed values. A parsed value is modelled by the
  datatype below. A string is a list of code units (restricted to the 8-bit range); an
  object is the list of its own properties in property order, with pairwise distinct
  keys; the type \<open>'n\<close> is the Number type of the JavaScript engine, whose operations
  are taken from the record \<open>runtime\<close>. A property that is absent reads as
  \<^verbatim>\<open>undefined\<close>, which is \<open>None\<close> here.
\<close>

datatype 'n json =
    JNull
  | JBool bool
  | JNum 'n
  | JStr string
  | JArr "'n json list"
  | JObj "(string \<times> 'n json) list"

type_synonym bytes = "8 word list"

record url =
  protocol :: string
  pathname :: string

text \<open>
  What the script takes from the engine it runs on: the tests on numbers
  (\<^verbatim>\<open>x === y\<close>, \<^verbatim>\<open>x === 1\<close>, falsiness of zero, \<^verbatim>\<open>Number.isInteger\<close>, \<^verbatim>\<open>x < 0\<close>), the two
  renderings of a number (\<^verbatim>\<open>String(x)\<close> and \<^verbatim>\<open>JSON.stringify(x)\<close>), the URL parser
  (\<^verbatim>\<open>new URL(s)\<close>, \<open>None\<close> when it throws) and the SHA-256 digest in lower-case hex.
\<close>

record 'n runtime =
  num_equal :: "'n \<Rightarrow> 'n \<Rightarrow> bool"
  num_is_one :: "'n \<Rightarrow> bool"
  num_is_zero :: "'n \<Rightarrow> bool"
  num_is_integer :: "'n \<Rightarrow> bool"
  num_is_negative :: "'n \<Rightarrow> bool"
  num_to_string :: "'n \<Rightarrow> string"
  num_to_json :: "'n \<Rightarrow> string"
  parse_url :: "string \<Rightarrow> url option"
  sha256_hex :: "bytes \<Rightarrow> string"

text \<open>
  An uncaught exception ends the run before any result is produced: a \<^verbatim>\<open>TypeError\<close>
  (a property read on \<^verbatim>\<open>null\<close>, or a value that cannot be converted to a string), or
  a rejected \<^verbatim>\<open>fetch\<close>.
\<close>

datatype js_error = TypeError | FetchRejected

record response =
  status :: nat
  statusText :: string
  body :: "bytes option"

record 'n download =
  label :: string
  url :: "'n json"
  sha256 :: string

record result =
  ok :: bool
  errors :: "string list"

subsection \<open>Reading values\<close>

text \<open>
  \<^verbatim>\<open>value.name\<close> for the fixed property names the script reads. Only an object has
  such a property; on an array, a string, a number or a boolean the read gives
  \<^verbatim>\<open>undefined\<close>. The read on \<^verbatim>\<open>null\<close> throws and is guarded where it can happen.
\<close>

fun getProp :: "'n json \<Rightarrow> string \<Rightarrow> 'n json option" where
  "getProp (JObj kvs) k = map_of kvs k"
| "getProp _ k = None"

text \<open>The optional read \<^verbatim>\<open>value?.name\<close>, and a read below an optional value.\<close>

fun propO :: "'n json option \<Rightarrow> string \<Rightarrow> 'n json option" where
  "propO (Some v) k = getProp v k"
| "propO None k = None"

fun truthy :: "'n runtime \<Rightarrow> 'n json option \<Rightarrow> bool" where
  "truthy R None = False"
| "truthy R (Some JNull) = False"
| "truthy R (Some (JBool b)) = b"
| "truthy R (Some (JNum n)) = (\<not> num_is_zero R n)"
| "truthy R (Some (JStr s)) = (s \<noteq> [])"
| "truthy R (Some (JArr xs)) = True"
| "truthy R (Some (JObj kvs)) = True"

text \<open>
  Strict equality \<^verbatim>\<open>a === b\<close> of two values read from two different documents:
  primitives are compared by value, and an object or array of one document is never
  the same object as one of the other.
\<close>

fun strictEq :: "'n runtime \<Rightarrow> 'n json option \<Rightarrow> 'n json option \<Rightarrow> bool" where
  "strictEq R None None = True"
| "strictEq R (Some JNull) (Some JNull) = True"
| "strictEq R (Some (JBool a)) (Some (JBool b)) = (a = b)"
| "strictEq R (Some (JNum a)) (Some (JNum b)) = num_equal R a b"
| "strictEq R (Some (JStr a)) (Some (JStr b)) = (a = b)"
| "strictEq R _ _ = False"

text \<open>The test \<^verbatim>\<open>value && typeof value === 'object'\<close>: an object or an array.\<close>

fun isObject :: "'n json \<Rightarrow> bool" where
  "isObject (JObj kvs) = True"
| "isObject (JArr xs) = True"
| "isObject _ = False"

fun isArray :: "'n json option \<Rightarrow> bool" where
  "isArray (Some (JArr xs)) = True"
| "isArray _ = False"

fun elements :: "'n json option \<Rightarrow> 'n json list" where
  "elements (Some (JArr xs)) = xs"
| "elements _ = []"

subsection \<open>String helpers\<close>

definition isWhiteSpace :: "char \<Rightarrow> bool" where
  "isWhiteSpace c = (of_char c \<in> {9, 10, 11, 12, 13, 32, 160 :: nat})"

definition trim :: "string \<Rightarrow> string" where
  "trim s = rev (dropWhile isWhiteSpace (rev (dropWhile isWhiteSpace s)))"

fun isNonEmptyString :: "'n json option \<Rightarrow> bool" where
  "isNonEmptyString (Some (JStr s)) = (length (trim s) > 0)"
| "isNonEmptyString _ = False"

definition isIdChar :: "char \<Rightarrow> bool" where
  "isIdChar c = (let n = (of_char c :: nat) in
     (97 \<le> n \<and> n \<le> 122) \<or> (65 \<le> n \<and> n \<le> 90) \<or> (48 \<le> n \<and> n \<le> 57) \<or> n = 95 \<or> n = 45)"

definition isValidId :: "string \<Rightarrow> bool" where
  "isValidId s = (1 \<le> length s \<and> length s \<le> 64 \<and> list_all isIdChar s)"

definition startsWith :: "string \<Rightarrow> string \<Rightarrow> bool" where
  "startsWith s p = (take (length p) s = p)"

definition endsWith :: "string \<Rightarrow> string \<Rightarrow> bool" where
  "endsWith s p = (length p \<le> length s \<and> drop (length s - length p) s = p)"

fun isValidPath :: "'n json option \<Rightarrow> bool" where
  "isValidPath (Some (JStr s)) = (isNonEmptyString (Some (JStr s) :: 'n json option) \<and> startsWith s ''dist/'')"
| "isValidPath _ = False"

definition isLowerHex :: "char \<Rightarrow> bool" where
  "isLowerHex c = (let n = (of_char c :: nat) in (97 \<le> n \<and> n \<le> 102) \<or> (48 \<le> n \<and> n \<le> 57))"

definition isValidSha256 :: "string \<Rightarrow> bool" where
  "isValidSha256 s = (length s = 64 \<and> list_all isLowerHex s)"

text \<open>
  \<^verbatim>\<open>String.prototype.toLowerCase\<close> on 8-bit code units: the letters A to Z and the
  Latin-1 capitals U+00C0 to U+00DE (without the multiplication sign U+00D7) move up
  by 32.
\<close>

definition lowerChar :: "char \<Rightarrow> char" where
  "lowerChar c = (let n = (of_char c :: nat) in
     if (65 \<le> n \<and> n \<le> 90) \<or> (192 \<le> n \<and> n \<le> 222 \<and> n \<noteq> 215) then char_of (n + 32) else c)"

definition toLowerCase :: "string \<Rightarrow> string" where
  "toLowerCase s = map lowerChar s"

fun intercalate :: "'a list \<Rightarrow> 'a list list \<Rightarrow> 'a list" where
  "intercalate sep [] = []"
| "intercalate sep [x] = x"
| "intercalate sep (x # y # ys) = x @ sep @ intercalate sep (y # ys)"

text \<open>
  \<^verbatim>\<open>String(value)\<close> and the conversion inside a template literal. An array joins
  its elements with a comma, \<^verbatim>\<open>null\<close> elements giving the empty string. An object
  gives \<^verbatim>\<open>[object Object]\<close>, unless it has a property \<^verbatim>\<open>toString\<close> of its own: that
  property hides \<^verbatim>\<open>Object.prototype.toString\<close>, is not callable, and the conversion
  throws a \<^verbatim>\<open>TypeError\<close>.
\<close>

fun collect :: "(js_error + string) list \<Rightarrow> js_error + string list" where
  "collect [] = Inr []"
| "collect (Inl e # rs) = Inl e"
| "collect (Inr s # rs) = (case collect rs of Inl e \<Rightarrow> Inl e | Inr ss \<Rightarrow> Inr (s # ss))"

fun toStr :: "'n runtime \<Rightarrow> 'n json \<Rightarrow> js_error + string" where
  "toStr R JNull = Inr ''null''"
| "toStr R (JBool b) = Inr (if b then ''true'' else ''false'')"
| "toStr R (JNum n) = Inr (num_to_string R n)"
| "toStr R (JStr s) = Inr s"
| "toStr R (JArr xs) =
     (case collect (map (\<lambda>x. if x = JNull then Inr [] else toStr R x) xs) of
        Inl e \<Rightarrow> Inl e
      | Inr ss \<Rightarrow> Inr (intercalate '','' ss))"
| "toStr R (JObj kvs) =
     (if ''toString'' \<in> fst ` set kvs then Inl TypeError else Inr ''[object Object]'')"

text \<open>The template \<^verbatim>\<open>`${value}`\<close> for a value that may be \<^verbatim>\<open>undefined\<close>.\<close>

fun toStrO :: "'n runtime \<Rightarrow> 'n json option \<Rightarrow> js_error + string" where
  "toStrO R None = Inr ''undefined''"
| "toStrO R (Some v) = toStr R v"

text \<open>The template \<^verbatim>\<open>`${value || 'unknown'}`\<close>.\<close>

definition orUnknown :: "'n runtime \<Rightarrow> 'n json option \<Rightarrow> js_error + string" where
  "orUnknown R v = (if truthy R v then toStrO R v else Inr ''unknown'')"

text \<open>A non-negative integer in decimal, as \<^verbatim>\<open>`${response.status}`\<close> prints it.\<close>

definition digitChar :: "nat \<Rightarrow> char" where
  "digitChar d = char_of (48 + d)"

function decimal :: "nat \<Rightarrow> string" where
  "decimal n = (if n < 10 then [digitChar n] else decimal (n div 10) @ [digitChar (n mod 10)])"
  by pat_completeness auto
termination
  by (relation "measure (\<lambda>n. n)") auto

declare decimal.simps [simp del]

section \<open>The shape of an index\<close>

text \<open>
  The script keeps one list \<^verbatim>\<open>errors\<close> and only ever pushes to it. Every stage below
  returns the messages it pushes, in the order of the pushes; the run appends them.
\<close>

fun isNumOne :: "'n runtime \<Rightarrow> 'n json option \<Rightarrow> bool" where
  "isNumOne R (Some (JNum n)) = num_is_one R n"
| "isNumOne R _ = False"

fun validateIndexShape :: "'n runtime \<Rightarrow> 'n json \<Rightarrow> string \<Rightarrow> js_error + (string list \<times> 'n json list)" where
  "validateIndexShape R JNull lbl = Inl TypeError"
| "validateIndexShape R index lbl =
     (let e1 = (if \<not> isNumOne R (getProp index ''schemaVersion'')
                then [lbl @ '': schemaVersion must be 1''] else []);
          e2 = (if \<not> isNonEmptyString (getProp index ''name'')
                then [lbl @ '': name is required''] else [])
      in if \<not> isArray (getProp index ''plugins'')
         then Inr (e1 @ e2 @ [lbl @ '': plugins must be an array''], [])
         else Inr (e1 @ e2, elements (getProp index ''plugins'')))"

section \<open>Canonical serialization\<close>

subsection \<open>Assignment to a fresh object\<close>

text \<open>
  \<^verbatim>\<open>stableObject\<close> builds its result with \<^verbatim>\<open>acc[key] = ...\<close> on an object that
  starts as \<^verbatim>\<open>{}\<close>. The own properties of an object are listed with the array
  indices first, in ascending numeric order, and the other keys after them in the order
  of their creation. An array index is a canonical numeric string below \<open>2^32 - 1\<close>.
  The key \<^verbatim>\<open>__proto__\<close> is special: the assignment reaches the setter of
  \<^verbatim>\<open>Object.prototype\<close> and creates no property.
\<close>

definition isDigit :: "char \<Rightarrow> bool" where
  "isDigit c = (48 \<le> (of_char c :: nat) \<and> (of_char c :: nat) \<le> 57)"

definition digitsValue :: "string \<Rightarrow> int" where
  "digitsValue s = foldl (\<lambda>a c. 10 * a + (of_char c - 48)) 0 s"

definition arrayIndex :: "string \<Rightarrow> int option" where
  "arrayIndex s =
     (if s \<noteq> [] \<and> list_all isDigit s \<and> (s = ''0'' \<or> hd s \<noteq> CHR ''0'') \<and> digitsValue s < 4294967295
      then Some (digitsValue s) else None)"

fun insertIndex :: "int \<Rightarrow> string \<Rightarrow> 'v \<Rightarrow> (string \<times> 'v) list \<Rightarrow> (string \<times> 'v) list" where
  "insertIndex i key v [] = [(key, v)]"
| "insertIndex i key v ((k, w) # rest) =
     (case arrayIndex k of
        Some j \<Rightarrow> if j < i then (k, w) # insertIndex i key v rest else (key, v) # (k, w) # rest
      | None \<Rightarrow> (key, v) # (k, w) # rest)"

fun replaceValue :: "string \<Rightarrow> 'v \<Rightarrow> (string \<times> 'v) list \<Rightarrow> (string \<times> 'v) list" where
  "replaceValue key v [] = []"
| "replaceValue key v ((k, w) # rest) =
     (if k = key then (k, v) # rest else (k, w) # replaceValue key v rest)"

definition assign :: "(string \<times> 'v) list \<Rightarrow> string \<Rightarrow> 'v \<Rightarrow> (string \<times> 'v) list" where
  "assign acc key v =
     (if key = ''__proto__'' then acc
      else if key \<in> fst ` set acc then replaceValue key v acc
      else case arrayIndex key of
             Some i \<Rightarrow> insertIndex i key v acc
           | None \<Rightarrow> acc @ [(key, v)])"

subsection \<open>stableObject and stableStringify\<close>

function stableObject :: "'n json \<Rightarrow> 'n json" where
  "stableObject (JArr xs) = JArr (map stableObject xs)"
| "stableObject (JObj kvs) =
     JObj (foldl (\<lambda>acc key. assign acc key (stableObject (the (map_of kvs key))))
             [] (sort (map fst kvs)))"
| "stableObject JNull = JNull"
| "stableObject (JBool b) = JBool b"
| "stableObject (JNum n) = JNum n"
| "stableObject (JStr s) = JStr s"
  by pat_completeness auto
termination
proof (relation "measure size")
  show "wf (measure (size :: 'n json \<Rightarrow> nat))" by simp
next
  fix xs :: "'n json list" and x
  assume "x \<in> set xs"
  then have "size x < Suc (size_list size xs)"
    by (induction xs) auto
  then show "(x, JArr xs) \<in> measure size" by simp
next
  fix kvs :: "(string \<times> 'n json) list" and acc :: "(string \<times> 'n json) list" and key
  assume "key \<in> set (sort (map fst kvs))"
  then have "key \<in> fst ` set kvs" by simp
  then obtain v where v: "map_of kvs key = Some v"
    by (cases "map_of kvs key") (auto simp: map_of_eq_None_iff)
  have "\<And>w. map_of kvs key = Some w \<Longrightarrow> size w < Suc (size_list (size_prod (\<lambda>_. 0) size) kvs)"
    by (induction kvs) (auto split: if_splits)
  with v have "size (the (map_of kvs key)) < Suc (size_list (size_prod (\<lambda>_. 0) size) kvs)"
    by simp
  then show "(the (map_of kvs key), JObj kvs) \<in> measure size" by simp
qed

text \<open>
  \<^verbatim>\<open>JSON.stringify\<close> without indentation. A string is quoted with the escapes of
  \<^verbatim>\<open>QuoteJSONString\<close>: the two-character escapes for backspace, tab, line feed, form
  feed, carriage return, the double quote and the backslash, and \<^verbatim>\<open>\u00XX\<close> for every
  other code unit below 32.
\<close>

definition dq :: char where
  "dq = CHR 0x22"

definition bs :: char where
  "bs = CHR 0x5C"

definition hexDigit :: "nat \<Rightarrow> char" where
  "hexDigit d = (if d < 10 then char_of (48 + d) else char_of (87 + d))"

definition escapeChar :: "char \<Rightarrow> string" where
  "escapeChar c = (let n = (of_char c :: nat) in
     if n = 8 then [bs, CHR ''b'']
     else if n = 9 then [bs, CHR ''t'']
     else if n = 10 then [bs, CHR ''n'']
     else if n = 12 then [bs, CHR ''f'']
     else if n = 13 then [bs, CHR ''r'']
     else if n = 34 then [bs, dq]
     else if n = 92 then [bs, bs]
     else if n < 32 then [bs, CHR ''u'', CHR ''0'', CHR ''0'', hexDigit (n div 16), hexDigit (n mod 16)]
     else [c])"

definition quoteJSONString :: "string \<Rightarrow> string" where
  "quoteJSONString s = dq # concat (map escapeChar s) @ [dq]"

fun stringify :: "'n runtime \<Rightarrow> 'n json \<Rightarrow> string" where
  "stringify R JNull = ''null''"
| "stringify R (JBool b) = (if b then ''true'' else ''false'')"
| "stringify R (JNum n) = num_to_json R n"
| "stringify R (JStr s) = quoteJSONString s"
| "stringify R (JArr xs) = ''['' @ intercalate '','' (map (stringify R) xs) @ '']''"
| "stringify R (JObj kvs) =
     ''{'' @ intercalate '','' (map (\<lambda>(k, v). quoteJSONString k @ '':'' @ stringify R v) kvs) @ ''}''"

definition stableStringify :: "'n runtime \<Rightarrow> 'n json \<Rightarrow> string" where
  "stableStringify R v = stringify R (stableObject v)"

section \<open>The walk over the two documents\<close>

subsection \<open>Pushing messages\<close>

text \<open>
  A block of the script either pushes some messages or throws. \<open>andThen\<close> runs two
  blocks one after the other; \<open>pushIf\<close> pushes a message under a condition, the
  message being built (and possibly throwing) only when the condition holds.
\<close>

definition bindE :: "js_error + 'a \<Rightarrow> ('a \<Rightarrow> js_error + 'b) \<Rightarrow> js_error + 'b" where
  "bindE m f = (case m of Inl e \<Rightarrow> Inl e | Inr x \<Rightarrow> f x)"

definition andThen :: "js_error + string list \<Rightarrow> js_error + string list \<Rightarrow> js_error + string list" where
  "andThen a b = bindE a (\<lambda>xs. bindE b (\<lambda>ys. Inr (xs @ ys)))"

definition pushIf :: "bool \<Rightarrow> js_error + string \<Rightarrow> js_error + string list" where
  "pushIf c msg = (if c then bindE msg (\<lambda>m. Inr [m]) else Inr [])"

definition quoted :: "string \<Rightarrow> string" where
  "quoted s = dq # s @ [dq]"

fun strOf :: "'n json option \<Rightarrow> string" where
  "strOf (Some (JStr s)) = s"
| "strOf _ = []"

text \<open>
  A \<^verbatim>\<open>Map\<close> keeps its keys in the order of their first insertion; setting a key
  again replaces the value in place.
\<close>

fun mapSet :: "('k \<times> 'v) list \<Rightarrow> 'k \<Rightarrow> 'v \<Rightarrow> ('k \<times> 'v) list" where
  "mapSet [] k v = [(k, v)]"
| "mapSet ((k', v') # m) k v = (if k' = k then (k, v) # m else (k', v') # mapSet m k v)"

text \<open>A map whose keys are all strings, read at an arbitrary value.\<close>

fun mapGet :: "(string \<times> 'v) list \<Rightarrow> 'n json option \<Rightarrow> 'v option" where
  "mapGet m (Some (JStr s)) = map_of m s"
| "mapGet m _ = None"

subsection \<open>The base plugins\<close>

definition basePluginMap :: "'n runtime \<Rightarrow> 'n json list \<Rightarrow> (string \<times> 'n json) list" where
  "basePluginMap R basePlugins =
     foldl (\<lambda>m plugin.
              if truthy R (Some plugin) \<and> isNonEmptyString (getProp plugin ''id'')
              then mapSet m (strOf (getProp plugin ''id'')) plugin else m)
       [] basePlugins"

subsection \<open>The plugins of the pr document\<close>

definition pluginMsg :: "js_error + string \<Rightarrow> string \<Rightarrow> js_error + string" where
  "pluginMsg who tail = bindE who (\<lambda>s. Inr (''pr index.json: plugin '' @ quoted s @ tail))"

definition pluginIdCheck :: "string set \<Rightarrow> 'n json option \<Rightarrow> string list \<times> string set" where
  "pluginIdCheck ids idv =
     (if \<not> isNonEmptyString idv \<or> \<not> isValidId (strOf idv)
      then ([''pr index.json: plugin id must match [a-zA-Z0-9_-]{1,64}''], ids)
      else if strOf idv \<in> ids
      then ([''pr index.json: duplicate plugin id '' @ quoted (strOf idv)], ids)
      else ([], insert (strOf idv) ids))"

text \<open>
  The \<^verbatim>\<open>readme\<close> block sits in a \<^verbatim>\<open>try\<close>: a conversion to a string that throws
  is caught like a URL that does not parse.
\<close>

definition strOrEmpty :: "'n runtime \<Rightarrow> 'n json option \<Rightarrow> js_error + string" where
  "strOrEmpty R v = (if truthy R v then toStrO R v else Inr [])"

definition readmeCheck :: "'n runtime \<Rightarrow> js_error + string \<Rightarrow> 'n json option \<Rightarrow> js_error + string list" where
  "readmeCheck R who readme =
     (if readme \<noteq> None then
        (case strOrEmpty R readme of
           Inl e \<Rightarrow> pushIf True (pluginMsg who '' readme must be a valid url'')
         | Inr s \<Rightarrow>
             (case parse_url R (trim s) of
                None \<Rightarrow> pushIf True (pluginMsg who '' readme must be a valid url'')
              | Some readmeUrl \<Rightarrow>
                  pushIf (protocol readmeUrl \<noteq> ''https:'') (pluginMsg who '' readme must use https'')))
      else Inr [])"

definition checkPlugin :: "'n runtime \<Rightarrow> string set \<Rightarrow> 'n json \<Rightarrow> js_error + (string list \<times> string set)" where
  "checkPlugin R ids plugin =
     (let who = orUnknown R (getProp plugin ''id'') in
      bindE
        (andThen (Inr (fst (pluginIdCheck ids (getProp plugin ''id''))))
        (andThen (pushIf (\<not> isNonEmptyString (getProp plugin ''name''))
                    (pluginMsg who '' missing name''))
        (andThen (pushIf (getProp plugin ''description'' \<noteq> None
                            \<and> \<not> isNonEmptyString (getProp plugin ''description''))
                    (pluginMsg who '' description must be non-empty''))
        (andThen (readmeCheck R who (getProp plugin ''readme''))
                 (pushIf (\<not> isArray (getProp plugin ''versions'')
                            \<or> length (elements (getProp plugin ''versions'')) = 0)
                    (pluginMsg who '' must have versions''))))))
        (\<lambda>es. Inr (es, snd (pluginIdCheck ids (getProp plugin ''id'')))))"

text \<open>
  The first loop over the pr plugins. It carries the set \<^verbatim>\<open>prPluginIds\<close> and the map
  \<^verbatim>\<open>prPluginMap\<close>, whose keys are the \<^verbatim>\<open>id\<close> values as they are (also
  \<^verbatim>\<open>undefined\<close>); the map is only ever read at a string.
\<close>

fun prPluginLoop :: "'n runtime \<Rightarrow> 'n json list \<Rightarrow> string set \<Rightarrow> ('n json option \<times> 'n json) list
    \<Rightarrow> js_error + (string list \<times> ('n json option \<times> 'n json) list)" where
  "prPluginLoop R [] ids m = Inr ([], m)"
| "prPluginLoop R (plugin # rest) ids m =
     (if \<not> isObject plugin then
        bindE (prPluginLoop R rest ids m)
          (\<lambda>(es, m'). Inr (''pr index.json: plugin entry must be an object'' # es, m'))
      else
        bindE (checkPlugin R ids plugin)
          (\<lambda>(es, ids'). bindE (prPluginLoop R rest ids' (mapSet m (getProp plugin ''id'') plugin))
             (\<lambda>(es', m'). Inr (es @ es', m'))))"

subsection \<open>Removed plugins\<close>

definition removalCheck :: "'n runtime \<Rightarrow> (string \<times> 'n json) list \<Rightarrow> ('n json option \<times> 'n json) list \<Rightarrow> string list" where
  "removalCheck R bpm prm =
     concat (map (\<lambda>(id, basePlugin).
                    if \<not> truthy R (map_of prm (Some (JStr id)))
                    then [''pr index.json: plugin '' @ quoted id @ '' removed''] else [])
               bpm)"

subsection \<open>The versions of one pr plugin\<close>

definition baseVersionsOf :: "'n runtime \<Rightarrow> (string \<times> 'n json) list \<Rightarrow> 'n json \<Rightarrow> (string \<times> 'n json) list" where
  "baseVersionsOf R bpm plugin =
     (let basePlugin = mapGet bpm (getProp plugin ''id'') in
      if truthy R basePlugin \<and> isArray (propO basePlugin ''versions'')
      then foldl (\<lambda>m version.
                    if truthy R (Some version) \<and> isNonEmptyString (getProp version ''version'')
                    then mapSet m (strOf (getProp version ''version'')) version else m)
             [] (elements (propO basePlugin ''versions''))
      else [])"

definition versionLabel :: "'n runtime \<Rightarrow> 'n json option \<Rightarrow> 'n json \<Rightarrow> js_error + string" where
  "versionLabel R pluginId version =
     bindE (orUnknown R pluginId)
       (\<lambda>p. bindE (orUnknown R (getProp version ''version'')) (\<lambda>v. Inr (p @ ''/'' @ v)))"

definition versionMsg :: "string \<Rightarrow> string \<Rightarrow> string" where
  "versionMsg lbl tail = ''pr index.json: version '' @ quoted lbl @ tail"

definition versionIdCheck :: "'n runtime \<Rightarrow> string \<Rightarrow> 'n json option \<Rightarrow> string set \<Rightarrow> 'n json
    \<Rightarrow> js_error + (string list \<times> string set)" where
  "versionIdCheck R lbl pluginId seen version =
     (if \<not> isNonEmptyString (getProp version ''version'')
      then Inr ([versionMsg lbl '' missing version''], seen)
      else if strOf (getProp version ''version'') \<in> seen
      then bindE (toStrO R pluginId)
             (\<lambda>p. Inr ([''pr index.json: duplicate version '' @ quoted (strOf (getProp version ''version''))
                          @ '' in '' @ quoted p], seen))
      else Inr ([], insert (strOf (getProp version ''version'')) seen))"

definition entryCheck :: "'n runtime \<Rightarrow> string \<Rightarrow> 'n json \<Rightarrow> string list" where
  "entryCheck R lbl version =
     (let entry = getProp version ''entry'' in
      if \<not> truthy R entry \<or> propO entry ''type'' \<noteq> Some (JStr ''file'')
           \<or> \<not> isValidPath (propO entry ''path'')
      then [versionMsg lbl ('' entry must be type '' @ quoted ''file'' @ '' with dist/ path'')] else [])"

definition distUrlCheck :: "'n runtime \<Rightarrow> string \<Rightarrow> string \<Rightarrow> string list" where
  "distUrlCheck R lbl u =
     (case parse_url R u of
        None \<Rightarrow> [versionMsg lbl '' dist.url is invalid'']
      | Some parsed \<Rightarrow>
          (if protocol parsed \<noteq> ''https:'' then [versionMsg lbl '' dist.url must use https''] else [])
          @ (if \<not> endsWith (pathname parsed) ''.tgz''
             then [versionMsg lbl '' dist.url must end with .tgz''] else []))"

definition distShapeMsg :: "string \<Rightarrow> string" where
  "distShapeMsg lbl = versionMsg lbl ('' dist must include type '' @ quoted ''tgz'' @ '', url, sha256'')"

definition distCheck :: "'n runtime \<Rightarrow> string \<Rightarrow> 'n json \<Rightarrow> js_error + string list" where
  "distCheck R lbl version =
     (let dist = getProp version ''dist'' in
      if \<not> truthy R dist \<or> propO dist ''type'' \<noteq> Some (JStr ''tgz'')
           \<or> \<not> isNonEmptyString (propO dist ''url'')
      then Inr [distShapeMsg lbl]
      else bindE (strOrEmpty R (propO dist ''sha256''))
             (\<lambda>s. if \<not> isValidSha256 (toLowerCase s)
                   then Inr [distShapeMsg lbl]
                   else Inr (distUrlCheck R lbl (strOf (propO dist ''url'')))))"

fun numberOk :: "'n runtime \<Rightarrow> 'n json \<Rightarrow> bool" where
  "numberOk R (JNum n) = (num_is_integer R n \<and> \<not> num_is_negative R n)"
| "numberOk R _ = False"

definition permArrayCheck :: "string \<Rightarrow> string \<Rightarrow> string \<Rightarrow> ('n json \<Rightarrow> bool) \<Rightarrow> 'n json option \<Rightarrow> string list" where
  "permArrayCheck lbl field kind good v =
     (if v \<noteq> None then
        (if \<not> isArray v then [versionMsg lbl ('' permissions.'' @ field @ '' must be an array'')]
         else if list_ex (\<lambda>x. \<not> good x) (elements v)
         then [versionMsg lbl ('' permissions.'' @ field @ '' must be '' @ kind)]
         else [])
      else [])"

definition permissionsCheck :: "'n runtime \<Rightarrow> string \<Rightarrow> 'n json \<Rightarrow> string list" where
  "permissionsCheck R lbl version =
     (case getProp version ''permissions'' of
        None \<Rightarrow> []
      | Some permissions \<Rightarrow>
          if \<not> isObject permissions then [versionMsg lbl '' permissions must be an object'']
          else permArrayCheck lbl ''instances'' ''non-negative integers'' (numberOk R)
                 (getProp permissions ''instances'')
             @ permArrayCheck lbl ''network'' ''strings'' (\<lambda>x. isNonEmptyString (Some x))
                 (getProp permissions ''network'')
             @ permArrayCheck lbl ''fs'' ''strings'' (\<lambda>x. isNonEmptyString (Some x))
                 (getProp permissions ''fs''))"

definition modifiedCheck :: "'n runtime \<Rightarrow> string \<Rightarrow> 'n json \<Rightarrow> 'n json \<Rightarrow> string list" where
  "modifiedCheck R lbl baseVersion version =
     (if stableStringify R baseVersion \<noteq> stableStringify R version
      then [versionMsg lbl '' modifies existing version''] else [])"

definition queueDownload :: "'n runtime \<Rightarrow> string \<Rightarrow> 'n json \<Rightarrow> js_error + 'n download list" where
  "queueDownload R lbl version =
     (let dist = getProp version ''dist'' in
      if truthy R (propO dist ''url'') \<and> truthy R (propO dist ''sha256'')
      then bindE (toStrO R (propO dist ''sha256''))
             (\<lambda>s. Inr [\<lparr>label = lbl, url = the (propO dist ''url''), sha256 = toLowerCase s\<rparr>])
      else Inr [])"

text \<open>
  The body of the loop over the versions of one pr plugin: the messages it pushes, the
  set \<^verbatim>\<open>seenVersions\<close> after it, and what it appends to \<^verbatim>\<open>downloads\<close>.
\<close>

definition checkVersion :: "'n runtime \<Rightarrow> 'n json option \<Rightarrow> (string \<times> 'n json) list \<Rightarrow> string set \<Rightarrow> 'n json
    \<Rightarrow> js_error + (string list \<times> string set \<times> 'n download list)" where
  "checkVersion R pluginId baseVersions seen version =
     bindE (versionLabel R pluginId version) (\<lambda>lbl.
       if \<not> isObject version
       then Inr ([versionMsg lbl '' must be an object''], seen, [])
       else
         bindE (versionIdCheck R lbl pluginId seen version) (\<lambda>(e1, seen').
         bindE (distCheck R lbl version) (\<lambda>e3.
           let shape = e1 @ entryCheck R lbl version @ e3 @ permissionsCheck R lbl version in
           case mapGet baseVersions (getProp version ''version'') of
             Some baseVersion \<Rightarrow>
               Inr (shape @ modifiedCheck R lbl baseVersion version, seen', [])
           | None \<Rightarrow>
               bindE (queueDownload R lbl version) (\<lambda>q. Inr (shape, seen', q)))))"

fun versionLoop :: "'n runtime \<Rightarrow> 'n json option \<Rightarrow> (string \<times> 'n json) list \<Rightarrow> string set \<Rightarrow> 'n json list
    \<Rightarrow> js_error + (string list \<times> 'n download list)" where
  "versionLoop R pluginId baseVersions seen [] = Inr ([], [])"
| "versionLoop R pluginId baseVersions seen (version # rest) =
     bindE (checkVersion R pluginId baseVersions seen version) (\<lambda>(es, seen', q).
       bindE (versionLoop R pluginId baseVersions seen' rest) (\<lambda>(es', q').
         Inr (es @ es', q @ q')))"

definition walkPlugin :: "'n runtime \<Rightarrow> (string \<times> 'n json) list \<Rightarrow> 'n json
    \<Rightarrow> js_error + (string list \<times> 'n download list)" where
  "walkPlugin R bpm plugin =
     (if \<not> isObject plugin then Inr ([], [])
      else if \<not> isArray (getProp plugin ''versions'') then Inr ([], [])
      else versionLoop R (getProp plugin ''id'') (baseVersionsOf R bpm plugin) {}
             (elements (getProp plugin ''versions'')))"

fun walkPlugins :: "'n runtime \<Rightarrow> (string \<times> 'n json) list \<Rightarrow> 'n json list
    \<Rightarrow> js_error + (string list \<times> 'n download list)" where
  "walkPlugins R bpm [] = Inr ([], [])"
| "walkPlugins R bpm (plugin # rest) =
     bindE (walkPlugin R bpm plugin) (\<lambda>(es, q).
       bindE (walkPlugins R bpm rest) (\<lambda>(es', q'). Inr (es @ es', q @ q')))"

subsection \<open>Downloads\<close>

text \<open>
  The network is a function from the value handed to \<^verbatim>\<open>fetch\<close> to the response,
  \<open>None\<close> when the promise is rejected. \<^verbatim>\<open>response.ok\<close> is a status from 200 to 299.
  The body is read only from a response that is ok; a body that cannot be read
  rejects as well. The record \<open>response\<close> holds what the script reads of a response;
  whatever else a response carries (its headers, its final url) is the extension
  \<open>'x\<close> of the record, which no function below looks at.
\<close>

definition responseOk :: "'x response_scheme \<Rightarrow> bool" where
  "responseOk r = (200 \<le> status r \<and> status r \<le> 299)"

definition checkDownload :: "'n runtime \<Rightarrow> ('n json \<Rightarrow> 'x response_scheme option) \<Rightarrow> 'n download
    \<Rightarrow> js_error + string list" where
  "checkDownload R fetch item =
     (case fetch (url item) of
        None \<Rightarrow> Inl FetchRejected
      | Some r \<Rightarrow>
          if \<not> responseOk r
          then Inr [''dist download failed for '' @ quoted (label item) @ '': ''
                      @ decimal (status r) @ '' '' @ statusText r]
          else (case body r of
                  None \<Rightarrow> Inl FetchRejected
                | Some buffer \<Rightarrow>
                    if sha256_hex R buffer \<noteq> sha256 item
                    then Inr [''dist sha256 mismatch for '' @ quoted (label item)]
                    else Inr []))"

fun checkDownloads :: "'n runtime \<Rightarrow> ('n json \<Rightarrow> 'x response_scheme option) \<Rightarrow> 'n download list
    \<Rightarrow> js_error + string list" where
  "checkDownloads R fetch [] = Inr []"
| "checkDownloads R fetch (item # rest) = andThen (checkDownload R fetch item) (checkDownloads R fetch rest)"

subsection \<open>The run\<close>

text \<open>
  Everything before the downloads: the messages pushed while the two documents are
  walked, and the queue \<^verbatim>\<open>downloads\<close>.
\<close>

definition inspect :: "'n runtime \<Rightarrow> 'n json \<Rightarrow> 'n json \<Rightarrow> js_error + (string list \<times> 'n download list)" where
  "inspect R baseIndex prIndex =
     bindE (validateIndexShape R baseIndex ''base index.json'') (\<lambda>(e1, basePlugins).
     bindE (validateIndexShape R prIndex ''pr index.json'') (\<lambda>(e2, prPlugins).
       let e3 = (if \<not> strictEq R (getProp baseIndex ''name'') (getProp prIndex ''name'')
                 then [''pr index.json: top-level name cannot be changed''] else []);
           bpm = basePluginMap R basePlugins
       in
       bindE (prPluginLoop R prPlugins {} []) (\<lambda>(e4, prm).
       bindE (walkPlugins R bpm prPlugins) (\<lambda>(e6, downloads).
         Inr (e1 @ e2 @ e3 @ e4 @ removalCheck R bpm prm @ e6, downloads)))))"

definition validate :: "'n runtime \<Rightarrow> ('n json \<Rightarrow> 'x response_scheme option) \<Rightarrow> 'n json \<Rightarrow> 'n json
    \<Rightarrow> js_error + result" where
  "validate R fetch baseIndex prIndex =
     bindE (inspect R baseIndex prIndex) (\<lambda>(es, downloads).
     bindE (checkDownloads R fetch downloads) (\<lambda>es'.
       Inr \<lparr>ok = (length (es @ es') = 0), errors = es @ es'\<rparr>))"

section \<open>Values that differ in key order only\<close>

text \<open>
  \<open>sameUpToKeyOrder v v'\<close>: the value \<open>v'\<close> comes from \<open>v\<close> by permuting the keys of
  objects, at any depth and also inside arrays; scalars and the order of array
  elements are unchanged. The keys of an object are pairwise distinct.
\<close>

inductive sameUpToKeyOrder :: "'n json \<Rightarrow> 'n json \<Rightarrow> bool" where
  same: "sameUpToKeyOrder v v"
| arr: "list_all2 sameUpToKeyOrder xs ys \<Longrightarrow> sameUpToKeyOrder (JArr xs) (JArr ys)"
| obj: "\<lbrakk>distinct (map fst kvs); distinct (map fst kvs'); fst ` set kvs = fst ` set kvs';
         \<forall>k v v'. map_of kvs k = Some v \<longrightarrow> map_of kvs' k = Some v' \<longrightarrow> sameUpToKeyOrder v v'\<rbrakk>
        \<Longrightarrow> sameUpToKeyOrder (JObj kvs) (JObj kvs')"

text \<open>\<open>segment xs ys\<close>: the list \<open>xs\<close> occurs in \<open>ys\<close> as one contiguous block.\<close>

definition segment :: "'a list \<Rightarrow> 'a list \<Rightarrow> bool" where
  "segment xs ys = (\<exists>pre post. ys = pre @ xs @ post)"


text \<open>
  \<open>setProp k x v\<close>: the object \<open>v\<close> with the value of its property \<open>k\<close> replaced by
  \<open>x\<close>, every other property and the order of the properties as they were.
\<close>

fun setProp :: "string \<Rightarrow> 'n json \<Rightarrow> 'n json \<Rightarrow> 'n json" where
  "setProp k x (JObj kvs) = JObj (replaceValue k x kvs)"
| "setProp k x v = v"

text \<open>
  The keys of the object that \<^verbatim>\<open>stableObject\<close> builds from an object with the keys
  \<open>ks\<close>, in the order in which \<^verbatim>\<open>JSON.stringify\<close> meets them.
\<close>

definition propertyOrder :: "string list \<Rightarrow> string list" where
  "propertyOrder ks = map fst (foldl (\<lambda>acc key. assign acc key ()) [] (sort ks))"





section \<open>A runtime for concrete runs\<close>

text \<open>
  To run the model on concrete documents the record \<open>runtime\<close> needs a value. In
  \<open>sampleRuntime\<close> the numbers are integers, printed in decimal; the URL parser knows
  the two schemes \<^verbatim>\<open>https://\<close> and \<^verbatim>\<open>http://\<close> and takes the path from the first
  slash after the host; the digest is a stand-in that maps every body to one fixed
  64-digit string. The theorems below hold for every runtime; the sample is used on
  concrete inputs only.
\<close>

definition showInt :: "int \<Rightarrow> string" where
  "showInt n = (if n < 0 then CHR ''-'' # decimal (nat (- n)) else decimal (nat n))"

definition sampleParseUrl :: "string \<Rightarrow> url option" where
  "sampleParseUrl s =
     (if startsWith s ''https://''
      then Some \<lparr>protocol = ''https:'', pathname = dropWhile (\<lambda>c. c \<noteq> CHR ''/'') (drop 8 s)\<rparr>
      else if startsWith s ''http://''
      then Some \<lparr>protocol = ''http:'', pathname = dropWhile (\<lambda>c. c \<noteq> CHR ''/'') (drop 7 s)\<rparr>
      else None)"

definition sampleDigest :: string where
  "sampleDigest = ''e3b0c44298fc1c149afbf4c8996fb92427ae41e4649b934ca495991b7852b855''"

definition sampleRuntime :: "int runtime" where
  "sampleRuntime =
     \<lparr>num_equal = (\<lambda>a b. a = b),
      num_is_one = (\<lambda>n. n = 1),
      num_is_zero = (\<lambda>n. n = 0),
      num_is_integer = (\<lambda>n. True),
      num_is_negative = (\<lambda>n. n < 0),
      num_to_string = showInt,
      num_to_json = showInt,
      parse_url = sampleParseUrl,
      sha256_hex = (\<lambda>b. sampleDigest)\<rparr>"

text \<open>Sample documents in the shape of the marketplace index.\<close>

definition sampleVersion :: "string \<Rightarrow> string \<Rightarrow> string \<Rightarrow> int json" where
  "sampleVersion v u digest =
     JObj [(''version'', JStr v),
           (''entry'', JObj [(''type'', JStr ''file''), (''path'', JStr ''dist/a.js'')]),
           (''dist'', JObj [(''type'', JStr ''tgz''), (''url'', JStr u),
                            (''sha256'', JStr digest)])]"

definition samplePlugin :: "string \<Rightarrow> int json list \<Rightarrow> int json" where
  "samplePlugin i vs = JObj [(''id'', JStr i), (''name'', JStr ''A''), (''versions'', JArr vs)]"

definition sampleIndex :: "int json list \<Rightarrow> int json" where
  "sampleIndex ps = JObj [(''schemaVersion'', JNum 1), (''name'', JStr ''m''), (''plugins'', JArr ps)]"

definition sampleFetch :: "int json \<Rightarrow> response option" where
  "sampleFetch u = (if u = JStr ''https://x/a.tgz''
                    then Some \<lparr>status = 200, statusText = ''OK'', body = Some []\<rparr>
                    else Some \<lparr>status = 404, statusText = ''Not Found'', body = None\<rparr>)"




text \<open>One version object written with two different key orders.\<close>

definition keyOrderA :: "int json" where
  "keyOrderA =
     JObj [(''version'', JStr ''1.0.0''),
           (''dist'', JObj [(''type'', JStr ''tgz''), (''url'', JStr ''https://x/a.tgz'')]),
           (''permissions'', JObj [(''fs'', JArr [JObj [(''a'', JNum 1), (''b'', JNum 2)]])])]"

definition keyOrderB :: "int json" where
  "keyOrderB =
     JObj [(''permissions'', JObj [(''fs'', JArr [JObj [(''b'', JNum 2), (''a'', JNum 1)]])]),
           (''dist'', JObj [(''url'', JStr ''https://x/a.tgz''), (''type'', JStr ''tgz'')]),
           (''version'', JStr ''1.0.0'')]"


text \<open>
  The sample digest with its first digit changed: once to another hexadecimal digit,
  once to a letter that is none.
\<close>

definition sampleOtherDigest :: string where
  "sampleOtherDigest = ''f3b0c44298fc1c149afbf4c8996fb92427ae41e4649b934ca495991b7852b855''"

definition sampleBadDigest :: string where
  "sampleBadDigest = ''z3b0c44298fc1c149afbf4c8996fb92427ae41e4649b934ca495991b7852b855''"

section \<open>Lemmas about the blocks of the run\<close>

lemma bindE_Inr [simp]: "bindE (Inr x) f = f x"
  by (simp add: bindE_def)

lemma bindE_Inl [simp]: "bindE (Inl e) f = Inl e"
  by (simp add: bindE_def)

lemma bindE_eq_Inr: "bindE m f = Inr y \<longleftrightarrow> (\<exists>x. m = Inr x \<and> f x = Inr y)"
  by (cases m) simp_all

lemma andThen_eq_Inr: "andThen a b = Inr zs \<longleftrightarrow> (\<exists>xs ys. a = Inr xs \<and> b = Inr ys \<and> zs = xs @ ys)"
  by (cases a; cases b) (auto simp: andThen_def)

lemma segment_refl: "segment xs xs"
  unfolding segment_def by (metis append_Nil append_Nil2)


lemma segment_append1: "segment xs ys \<Longrightarrow> segment xs (ys @ zs)"
  unfolding segment_def by (metis append.assoc)

lemma segment_append2: "segment xs zs \<Longrightarrow> segment xs (ys @ zs)"
  unfolding segment_def by (metis append.assoc)

lemma segment_set: "segment xs ys \<Longrightarrow> set xs \<subseteq> set ys"
  unfolding segment_def by auto

lemma versionLoop_member:
  "versionLoop R pid bvs seen vs = Inr (es, q) \<Longrightarrow> v \<in> set vs \<Longrightarrow>
   \<exists>seen0 es0 seen1 q0. checkVersion R pid bvs seen0 v = Inr (es0, seen1, q0)
      \<and> segment es0 es \<and> segment q0 q"
proof (induction vs arbitrary: seen es q)
  case Nil
  then show ?case by simp
next
  case (Cons a vs)
  from Cons.prems(1) obtain e1 s1 q1 e2 q2 where
    a: "checkVersion R pid bvs seen a = Inr (e1, s1, q1)" and
    r: "versionLoop R pid bvs s1 vs = Inr (e2, q2)" and
    eq: "es = e1 @ e2" "q = q1 @ q2"
    by (auto simp: bindE_eq_Inr)
  show ?case
  proof (cases "v = a")
    case True
    with a eq show ?thesis
      by (metis segment_append1 segment_refl)
  next
    case False
    with Cons.prems(2) have "v \<in> set vs" by simp
    from Cons.IH [OF r this] eq show ?thesis
      by (metis segment_append2)
  qed
qed

lemma walkPlugins_member:
  "walkPlugins R bpm ps = Inr (es, q) \<Longrightarrow> p \<in> set ps \<Longrightarrow>
   \<exists>es0 q0. walkPlugin R bpm p = Inr (es0, q0) \<and> segment es0 es \<and> segment q0 q"
proof (induction ps arbitrary: es q)
  case Nil
  then show ?case by simp
next
  case (Cons a ps)
  from Cons.prems(1) obtain e1 q1 e2 q2 where
    a: "walkPlugin R bpm a = Inr (e1, q1)" and
    r: "walkPlugins R bpm ps = Inr (e2, q2)" and
    eq: "es = e1 @ e2" "q = q1 @ q2"
    by (auto simp: bindE_eq_Inr)
  show ?case
  proof (cases "p = a")
    case True
    with a eq show ?thesis
      by (metis segment_append1 segment_refl)
  next
    case False
    with Cons.prems(2) have "p \<in> set ps" by simp
    from Cons.IH [OF r this] eq show ?thesis
      by (metis segment_append2)
  qed
qed

lemma checkVersion_object:
  assumes "checkVersion R pid bvs seen v = Inr (es, seen', q)" "isObject v"
  shows "\<exists>lbl e1 e3 tl. versionLabel R pid v = Inr lbl
      \<and> versionIdCheck R lbl pid seen v = Inr (e1, seen')
      \<and> distCheck R lbl v = Inr e3
      \<and> es = e1 @ entryCheck R lbl v @ e3 @ permissionsCheck R lbl v @ tl
      \<and> (case mapGet bvs (getProp v ''version'') of
            Some bv \<Rightarrow> tl = modifiedCheck R lbl bv v \<and> q = []
          | None \<Rightarrow> tl = [] \<and> queueDownload R lbl v = Inr q)"
  using assms
  by (auto simp: checkVersion_def bindE_eq_Inr Let_def split: option.splits)



lemma isNonEmptyString_truthy: "isNonEmptyString v \<Longrightarrow> truthy R v"
  by (cases v rule: isNonEmptyString.cases) (auto simp: trim_def)



lemma isNonEmptyString_str: "isNonEmptyString v \<Longrightarrow> v = Some (JStr (strOf v))"
  by (cases v rule: isNonEmptyString.cases) auto

lemma validateIndexShape_plugins:
  "validateIndexShape R index lbl = Inr (es, ps) \<Longrightarrow> ps = elements (getProp index ''plugins'')"
  by (cases index; cases "getProp index ''plugins''" rule: isArray.cases) (auto simp: Let_def)

subsection \<open>The queue and the downloads\<close>















section \<open>The shape validator\<close>

text \<open>
  Claim C6, as the code has it. On every parsed document other than \<^verbatim>\<open>null\<close> the
  shape validator returns without raising. It pushes the \<^verbatim>\<open>schemaVersion\<close> message
  once when the field is not the number 1 and not otherwise, the \<^verbatim>\<open>name\<close> message
  once when the name is not a non-empty string (it is missing, not a string, empty or
  only white space) and not otherwise, and the \<^verbatim>\<open>plugins\<close> message once when the
  field is not an array and not otherwise. What each check pushes depends on its own
  field only, and nothing else is pushed. When \<^verbatim>\<open>plugins\<close> is an array the validator
  returns its elements as they are, also when one of the first two checks failed and
  also when the array is empty; when \<^verbatim>\<open>plugins\<close> is not an array it returns the empty
  list. So the returned list is empty when \<^verbatim>\<open>plugins\<close> is not an array or is the
  empty array, and in no other case.
\<close>

theorem validateIndexShape_contract:
  assumes "index \<noteq> JNull"
  shows "\<exists>errs ps. validateIndexShape R index lbl = Inr (errs, ps)
     \<and> count_list errs (lbl @ '': schemaVersion must be 1'')
         = (if isNumOne R (getProp index ''schemaVersion'') then 0 else 1)
     \<and> count_list errs (lbl @ '': name is required'')
         = (if isNonEmptyString (getProp index ''name'') then 0 else 1)
     \<and> count_list errs (lbl @ '': plugins must be an array'')
         = (if isArray (getProp index ''plugins'') then 0 else 1)
     \<and> length errs = count_list errs (lbl @ '': schemaVersion must be 1'')
         + count_list errs (lbl @ '': name is required'')
         + count_list errs (lbl @ '': plugins must be an array'')
     \<and> ps = (if isArray (getProp index ''plugins'') then elements (getProp index ''plugins'') else [])
     \<and> (ps = [] \<longleftrightarrow> \<not> isArray (getProp index ''plugins'') \<or> getProp index ''plugins'' = Some (JArr []))"
proof -
  have "elements v = [] \<longleftrightarrow> v = Some (JArr [])" if "isArray v" for v :: "'a json option"
    using that by (cases v rule: isArray.cases) simp_all
  with assms show ?thesis
    by (cases index) (simp_all add: Let_def)
qed

theorem validateIndexShape_contract_witness:
  "(JObj [(''schemaVersion'', JNum 2), (''name'', JStr []), (''plugins'', JStr ''none'')] :: int json) \<noteq> JNull
   \<and> (\<exists>errs ps. validateIndexShape sampleRuntime
          (JObj [(''schemaVersion'', JNum 2), (''name'', JStr []), (''plugins'', JStr ''none'')]) ''base index.json''
          = Inr (errs, ps)
        \<and> count_list errs ''base index.json: schemaVersion must be 1'' = 1
        \<and> count_list errs ''base index.json: name is required'' = 1
        \<and> count_list errs ''base index.json: plugins must be an array'' = 1
        \<and> length errs = 3 \<and> ps = [])"
  using validateIndexShape_contract
    [of "JObj [(''schemaVersion'', JNum 2), (''name'', JStr []), (''plugins'', JStr ''none'')]"
        sampleRuntime "''base index.json''"]
  by (simp add: sampleRuntime_def trim_def)

text \<open>
  The claim as worded fails: a document whose \<^verbatim>\<open>schemaVersion\<close> check fails and whose
  \<^verbatim>\<open>plugins\<close> field is an array gets its plugin list back, not the empty list.
\<close>

theorem validateIndexShape_counterexample:
  "validateIndexShape sampleRuntime
     (JObj [(''schemaVersion'', JNum 2), (''name'', JStr ''m''), (''plugins'', JArr [JObj []])])
     ''pr index.json''
   = Inr ([''pr index.json: schemaVersion must be 1''], [JObj []])"
  by (simp add: sampleRuntime_def trim_def isWhiteSpace_def)

section \<open>Canonicalization ignores key order\<close>

lemma sort_keys_unique:
  assumes "distinct (map fst kvs)" "distinct (map fst kvs')" "fst ` set kvs = fst ` set kvs'"
  shows "sort (map fst kvs) = sort (map fst (kvs' :: (string \<times> 'v) list))"
proof (rule sorted_distinct_set_unique)
  show "sorted (sort (map fst kvs))" "sorted (sort (map fst kvs'))" by simp_all
  show "distinct (sort (map fst kvs))" "distinct (sort (map fst kvs'))" using assms by simp_all
  show "set (sort (map fst kvs)) = set (sort (map fst kvs'))" using assms by simp
qed

lemma stableObject_key_order:
  "sameUpToKeyOrder v v' \<Longrightarrow> stableObject v = stableObject v'"
proof (induction rule: sameUpToKeyOrder.induct)
  case (same v)
  show ?case by simp
next
  case (arr xs ys)
  then have "list_all2 (\<lambda>x y. stableObject x = stableObject y) xs ys"
    by (simp add: list_all2_conv_all_nth)
  then have "map stableObject xs = map stableObject ys"
    by (induction rule: list_all2_induct) simp_all
  then show ?case by simp
next
  case (obj kvs kvs')
  have keys: "sort (map fst kvs) = sort (map fst kvs')"
    using obj.hyps(1-3) by (rule sort_keys_unique)
  have vals: "stableObject (the (map_of kvs key)) = stableObject (the (map_of kvs' key))"
    if "key \<in> set (sort (map fst kvs'))" for key
  proof -
    from that have "key \<in> fst ` set kvs'" by simp
    then obtain w' where w': "map_of kvs' key = Some w'"
      by (cases "map_of kvs' key") (auto simp: map_of_eq_None_iff)
    from \<open>key \<in> fst ` set kvs'\<close> obj.hyps(3) have "key \<in> fst ` set kvs" by simp
    then obtain w where w: "map_of kvs key = Some w"
      by (cases "map_of kvs key") (auto simp: map_of_eq_None_iff)
    from obj.IH w w' have "stableObject w = stableObject w'" by blast
    with w w' show ?thesis by simp
  qed
  have "foldl (\<lambda>acc key. assign acc key (stableObject (the (map_of kvs key)))) [] (sort (map fst kvs))
      = foldl (\<lambda>acc key. assign acc key (stableObject (the (map_of kvs' key)))) [] (sort (map fst kvs'))"
    by (rule foldl_cong) (simp_all add: keys vals)
  then show ?case by simp
qed

text \<open>
  Claim C4. Two values that differ only in the order of the keys of their objects, at
  any depth, have the same canonical serialization; so the comparison of an existing
  version with a copy whose keys are reordered pushes no
  \<^verbatim>\<open>modifies existing version\<close> message.
\<close>

theorem stableStringify_key_order:
  assumes "sameUpToKeyOrder v v'"
  shows "stableStringify R v = stableStringify R v' \<and> modifiedCheck R lbl v v' = []"
  using stableObject_key_order [OF assms] by (simp add: stableStringify_def modifiedCheck_def)

theorem stableStringify_key_order_witness:
  "sameUpToKeyOrder keyOrderA keyOrderB
   \<and> keyOrderA \<noteq> keyOrderB
   \<and> stableStringify sampleRuntime keyOrderA = stableStringify sampleRuntime keyOrderB
   \<and> modifiedCheck sampleRuntime ''a/1.0.0'' keyOrderA keyOrderB = []"
proof -
  have inner: "sameUpToKeyOrder (JObj [(''a'', JNum (1::int)), (''b'', JNum 2)]) (JObj [(''b'', JNum 2), (''a'', JNum 1)])"
    by (rule sameUpToKeyOrder.obj) (auto intro: sameUpToKeyOrder.same split: if_splits)
  have perm: "sameUpToKeyOrder (JObj [(''fs'', JArr [JObj [(''a'', JNum (1::int)), (''b'', JNum 2)]])])
                (JObj [(''fs'', JArr [JObj [(''b'', JNum 2), (''a'', JNum 1)]])])"
    by (rule sameUpToKeyOrder.obj) (auto intro: sameUpToKeyOrder.arr inner split: if_splits)
  have dist: "sameUpToKeyOrder (JObj [(''type'', JStr ''tgz''), (''url'', JStr ''https://x/a.tgz'')] :: int json)
                (JObj [(''url'', JStr ''https://x/a.tgz''), (''type'', JStr ''tgz'')])"
    by (rule sameUpToKeyOrder.obj) (auto intro: sameUpToKeyOrder.same split: if_splits)
  have h: "sameUpToKeyOrder keyOrderA keyOrderB"
    unfolding keyOrderA_def keyOrderB_def
    by (rule sameUpToKeyOrder.obj) (auto intro: sameUpToKeyOrder.same perm dist split: if_splits)
  have ne: "keyOrderA \<noteq> keyOrderB"
    by (simp add: keyOrderA_def keyOrderB_def)
  from h ne stableStringify_key_order [OF h, of sampleRuntime "''a/1.0.0''"] show ?thesis
    by blast
qed

section \<open>The checks of dist.url\<close>





section \<open>Digests in upper case\<close>






section \<open>What is queued for download\<close>

lemma truthy_Some: "truthy R x \<Longrightarrow> x = Some (the x)"
  by (cases x) auto

text \<open>
  Claim C2, as the code has it. A version that is not in the base plugin is put on the
  queue exactly when \<^verbatim>\<open>dist.url\<close> and \<^verbatim>\<open>dist.sha256\<close> are both truthy; the entry
  then carries the version label, the url as it is and the lower-cased digest. So a
  missing \<^verbatim>\<open>dist\<close>, or a url or digest that is missing, empty, null, false or zero,
  keeps the version off the queue; the outcome of the shape check plays no part.
\<close>

theorem queue_condition:
  assumes "checkVersion R pid bvs seen v = Inr (es, seen', q)"
    and new: "mapGet bvs (getProp v ''version'') = None"
  shows "(q = [] \<longleftrightarrow> \<not> (truthy R (propO (getProp v ''dist'') ''url'')
                        \<and> truthy R (propO (getProp v ''dist'') ''sha256'')))
    \<and> (\<forall>d \<in> set q. q = [d]
          \<and> versionLabel R pid v = Inr (label d)
          \<and> propO (getProp v ''dist'') ''url'' = Some (url d)
          \<and> bindE (toStrO R (propO (getProp v ''dist'') ''sha256'')) (\<lambda>s. Inr (toLowerCase s))
              = Inr (sha256 d))"
proof (cases "isObject v")
  case True
  from checkVersion_object [OF assms(1) True] new obtain lbl where
    lbl: "versionLabel R pid v = Inr lbl" and q: "queueDownload R lbl v = Inr q"
    by auto
  from q lbl show ?thesis
    by (auto simp: queueDownload_def Let_def bindE_eq_Inr truthy_Some [symmetric] split: if_splits)
next
  case False
  then have "getProp v ''dist'' = None"
    by (cases v) auto
  moreover from assms(1) False have "q = []"
    by (auto simp: checkVersion_def bindE_eq_Inr)
  ultimately show ?thesis by simp
qed

theorem queue_condition_witness:
  "checkVersion sampleRuntime (Some (JStr ''b'')) [] {} (sampleVersion ''1.0.0'' [] sampleDigest)
     = Inr ([distShapeMsg ''b/1.0.0''], {''1.0.0''}, [])
   \<and> mapGet [] (getProp (sampleVersion ''1.0.0'' [] sampleDigest) ''version'') = (None :: int json option)
   \<and> \<not> (truthy sampleRuntime (propO (getProp (sampleVersion ''1.0.0'' [] sampleDigest) ''dist'') ''url'')
          \<and> truthy sampleRuntime (propO (getProp (sampleVersion ''1.0.0'' [] sampleDigest) ''dist'') ''sha256''))"
proof -
  let ?v = "sampleVersion ''1.0.0'' [] sampleDigest"
  have run: "checkVersion sampleRuntime (Some (JStr ''b'')) [] {} ?v
     = Inr ([distShapeMsg ''b/1.0.0''], {''1.0.0''}, [])"
    by code_simp
  have new: "mapGet [] (getProp ?v ''version'') = (None :: int json option)"
    by (simp add: sampleVersion_def)
  from queue_condition [OF run new] run new show ?thesis
    by simp
qed

text \<open>
  The claim as worded fails. A new version whose \<^verbatim>\<open>dist\<close> block has the type
  \<^verbatim>\<open>zip\<close>, an http url and a two-letter digest is reported by the shape check and is
  put on the queue all the same; the run then fetches the url.
\<close>

theorem malformed_dist_counterexample:
  "inspect sampleRuntime (sampleIndex [])
     (sampleIndex [samplePlugin ''b''
        [JObj [(''version'', JStr ''1.0.0''),
               (''entry'', JObj [(''type'', JStr ''file''), (''path'', JStr ''dist/a.js'')]),
               (''dist'', JObj [(''type'', JStr ''zip''), (''url'', JStr ''http://x/a.zip''),
                                (''sha256'', JStr ''zz'')])]]])
   = Inr ([distShapeMsg ''b/1.0.0''],
          [\<lparr>label = ''b/1.0.0'', url = JStr ''http://x/a.zip'', sha256 = ''zz''\<rparr>])
   \<and> validate sampleRuntime sampleFetch (sampleIndex [])
     (sampleIndex [samplePlugin ''b''
        [JObj [(''version'', JStr ''1.0.0''),
               (''entry'', JObj [(''type'', JStr ''file''), (''path'', JStr ''dist/a.js'')]),
               (''dist'', JObj [(''type'', JStr ''zip''), (''url'', JStr ''http://x/a.zip''),
                                (''sha256'', JStr ''zz'')])]]])
   = Inr \<lparr>ok = False,
          errors = [distShapeMsg ''b/1.0.0'',
                    ''dist download failed for '' @ quoted ''b/1.0.0'' @ '': 404 Not Found'']\<rparr>"
  by code_simp

section \<open>A version deleted from a plugin that stays\<close>

text \<open>
  Claim C1 asks for an error when the pr document drops a version of a plugin it keeps.
  The loop over the base plugins only looks for plugins that are gone, and the walk
  over the pr plugins only looks at versions that the pr document still has. Base has
  the plugin \<^verbatim>\<open>a\<close> with the versions 1.0.0 and 1.1.0, the pr document has the same
  plugin with the version 1.0.0 only: the run ends with no message and \<^verbatim>\<open>ok = true\<close>.
\<close>

theorem version_deletion_accepted:
  "validate sampleRuntime sampleFetch
     (sampleIndex [samplePlugin ''a'' [sampleVersion ''1.0.0'' ''https://x/a.tgz'' sampleDigest,
                                       sampleVersion ''1.1.0'' ''https://x/a.tgz'' sampleDigest]])
     (sampleIndex [samplePlugin ''a'' [sampleVersion ''1.0.0'' ''https://x/a.tgz'' sampleDigest]])
   = Inr \<lparr>ok = True, errors = []\<rparr>"
  by code_simp

section \<open>Removed plugins\<close>

lemma mapSet_keys: "fst ` set (mapSet m k v) = insert k (fst ` set m)"
proof (induction m)
  case Nil
  show ?case by simp
next
  case (Cons a m)
  then show ?case by (cases a) (auto simp: insert_commute)
qed

lemma getProp_truthy: "getProp p k = Some x \<Longrightarrow> truthy R (Some p)"
  by (cases p) auto








section \<open>Base plugins without a usable id\<close>

lemma basePluginMap_skip:
  assumes "\<not> isNonEmptyString (getProp bp ''id'')"
  shows "basePluginMap R (ps @ bp # qs) = basePluginMap R (ps @ qs)"
  using assms by (simp add: basePluginMap_def)

lemma validateIndexShape_cong:
  assumes "getProp base' ''schemaVersion'' = getProp base ''schemaVersion''"
    and "getProp base' ''name'' = getProp base ''name''"
    and "getProp base ''plugins'' = Some (JArr xs)" "getProp base' ''plugins'' = Some (JArr ys)"
  shows "\<exists>es. validateIndexShape R base lbl = Inr (es, xs) \<and> validateIndexShape R base' lbl = Inr (es, ys)"
  using assms by (cases base; cases base') (simp_all add: Let_def)

text \<open>
  Claim C9. A base plugin whose \<^verbatim>\<open>id\<close> is not a non-empty string never enters
  \<^verbatim>\<open>basePluginMap\<close>, the only way by which base plugins reach the removal check and
  the comparison of versions. The run therefore ends exactly as it does on a base
  document without that plugin: no \<^verbatim>\<open>removed\<close> message comes from it and none of
  its versions is compared, whatever the pr document is.
\<close>

theorem base_plugin_without_id_ignored:
  assumes "getProp base ''plugins'' = Some (JArr (ps @ bp # qs))"
    and "getProp base' ''plugins'' = Some (JArr (ps @ qs))"
    and "getProp base' ''schemaVersion'' = getProp base ''schemaVersion''"
    and "getProp base' ''name'' = getProp base ''name''"
    and "\<not> isNonEmptyString (getProp bp ''id'')"
  shows "basePluginMap R (ps @ bp # qs) = basePluginMap R (ps @ qs)
    \<and> validate R fetch base pr = validate R fetch base' pr"
proof -
  from validateIndexShape_cong [OF assms(3,4,1,2)] obtain es where
    "validateIndexShape R base ''base index.json'' = Inr (es, ps @ bp # qs)"
    "validateIndexShape R base' ''base index.json'' = Inr (es, ps @ qs)"
    by blast
  with basePluginMap_skip [OF assms(5), of R ps qs] assms(4) show ?thesis
    by (simp add: validate_def inspect_def)
qed

theorem base_plugin_without_id_ignored_witness:
  "getProp (sampleIndex [JObj [(''id'', JNum 5), (''name'', JStr ''N''),
                                (''versions'', JArr [sampleVersion ''0.1.0'' ''https://x/a.tgz'' sampleDigest])],
                          samplePlugin ''a'' [sampleVersion ''1.0.0'' ''https://x/a.tgz'' sampleDigest]]) ''plugins''
     = Some (JArr ([] @ JObj [(''id'', JNum 5), (''name'', JStr ''N''),
                              (''versions'', JArr [sampleVersion ''0.1.0'' ''https://x/a.tgz'' sampleDigest])]
                      # [samplePlugin ''a'' [sampleVersion ''1.0.0'' ''https://x/a.tgz'' sampleDigest]]))
   \<and> \<not> isNonEmptyString (getProp (JObj [(''id'', JNum 5), (''name'', JStr ''N''),
                              (''versions'', JArr [sampleVersion ''0.1.0'' ''https://x/a.tgz'' sampleDigest])] :: int json) ''id'')
   \<and> validate sampleRuntime sampleFetch
       (sampleIndex [JObj [(''id'', JNum 5), (''name'', JStr ''N''),
                           (''versions'', JArr [sampleVersion ''0.1.0'' ''https://x/a.tgz'' sampleDigest])],
                     samplePlugin ''a'' [sampleVersion ''1.0.0'' ''https://x/a.tgz'' sampleDigest]])
       (sampleIndex [samplePlugin ''a'' [sampleVersion ''1.0.0'' ''https://x/a.tgz'' sampleDigest]])
     = validate sampleRuntime sampleFetch
       (sampleIndex [samplePlugin ''a'' [sampleVersion ''1.0.0'' ''https://x/a.tgz'' sampleDigest]])
       (sampleIndex [samplePlugin ''a'' [sampleVersion ''1.0.0'' ''https://x/a.tgz'' sampleDigest]])
   \<and> validate sampleRuntime sampleFetch
       (sampleIndex [samplePlugin ''a'' [sampleVersion ''1.0.0'' ''https://x/a.tgz'' sampleDigest]])
       (sampleIndex [samplePlugin ''a'' [sampleVersion ''1.0.0'' ''https://x/a.tgz'' sampleDigest]])
     = Inr \<lparr>ok = True, errors = []\<rparr>"
proof -
  let ?bp = "JObj [(''id'', JNum 5), (''name'', JStr ''N''),
                   (''versions'', JArr [sampleVersion ''0.1.0'' ''https://x/a.tgz'' sampleDigest])] :: int json"
  let ?a = "samplePlugin ''a'' [sampleVersion ''1.0.0'' ''https://x/a.tgz'' sampleDigest]"
  have h1: "getProp (sampleIndex [?bp, ?a]) ''plugins'' = Some (JArr ([] @ ?bp # [?a]))"
    by (simp add: sampleIndex_def)
  have h2: "getProp (sampleIndex [?a]) ''plugins'' = Some (JArr ([] @ [?a]))"
    by (simp add: sampleIndex_def)
  have h3: "getProp (sampleIndex [?a]) ''schemaVersion'' = getProp (sampleIndex [?bp, ?a]) ''schemaVersion''"
    by (simp add: sampleIndex_def)
  have h4: "getProp (sampleIndex [?a]) ''name'' = getProp (sampleIndex [?bp, ?a]) ''name''"
    by (simp add: sampleIndex_def)
  have h5: "\<not> isNonEmptyString (getProp ?bp ''id'')"
    by simp
  have run: "validate sampleRuntime sampleFetch (sampleIndex [?a]) (sampleIndex [?a]) = Inr \<lparr>ok = True, errors = []\<rparr>"
    by code_simp
  from base_plugin_without_id_ignored [OF h1 h2 h3 h4 h5, of sampleRuntime sampleFetch "sampleIndex [?a]"] h1 h5 run
  show ?thesis
    by simp
qed

section \<open>Determinism\<close>




section \<open>A changed digest in an existing version\<close>

subsection \<open>The serialization tells two digests apart\<close>

lemma hexDigit_code: "d < 16 \<Longrightarrow> (of_char (hexDigit d) :: nat) = (if d < 10 then 48 + d else 87 + d)"
  by (simp add: hexDigit_def)

lemma hexDigit_inj: "a < 16 \<Longrightarrow> b < 16 \<Longrightarrow> hexDigit a = hexDigit b \<Longrightarrow> a = b"
proof -
  assume a: "a < 16" and b: "b < 16" and e: "hexDigit a = hexDigit b"
  from e have "(of_char (hexDigit a) :: nat) = of_char (hexDigit b)" by simp
  with a b show ?thesis
    by (simp add: hexDigit_code split: if_splits)
qed

lemma escapeChar_inj: "escapeChar c = escapeChar c' \<Longrightarrow> c = c'"
proof -
  assume e: "escapeChar c = escapeChar c'"
  have lt: "(of_char c :: nat) < 32 \<Longrightarrow> (of_char c :: nat) div 16 < 16 \<and> (of_char c :: nat) mod 16 < 16" for c
    by simp
  have hex: "(of_char a :: nat) < 32 \<Longrightarrow> (of_char b :: nat) < 32
      \<Longrightarrow> hexDigit (of_char a div 16) = hexDigit (of_char b div 16)
      \<Longrightarrow> hexDigit (of_char a mod 16) = hexDigit (of_char b mod 16)
      \<Longrightarrow> (of_char a :: nat) = of_char b" for a b :: char
  proof -
    assume 1: "(of_char a :: nat) < 32" "(of_char b :: nat) < 32"
      and 2: "hexDigit (of_char a div 16) = hexDigit (of_char b div 16)"
      and 3: "hexDigit (of_char a mod 16) = hexDigit (of_char b mod 16)"
    from 2 1 have "(of_char a :: nat) div 16 = of_char b div 16"
      by (intro hexDigit_inj) simp_all
    moreover from 3 have "(of_char a :: nat) mod 16 = of_char b mod 16"
      by (intro hexDigit_inj) simp_all
    ultimately show ?thesis
      by (metis div_mult_mod_eq)
  qed
  have same: "(of_char a :: nat) = n \<Longrightarrow> (of_char b :: nat) = n \<Longrightarrow> a = b" for a b :: char and n
    by (metis of_char_eq_iff)
  show ?thesis
    using e hex [of c c']
    by (simp add: escapeChar_def Let_def dq_def bs_def split: if_splits) (blast intro: same)+
qed

lemma concat_escape_inj:
  assumes "concat (map escapeChar (s1 @ c # s2)) = concat (map escapeChar (s1 @ c' # s2))"
  shows "escapeChar c = escapeChar c'"
  using assms by simp

lemma intercalate_Cons: "intercalate sep (x # xs) = x @ concat (map (\<lambda>y. sep @ y) xs)"
  by (induction xs arbitrary: x) simp_all

lemma intercalate_nonempty: "ys \<noteq> [] \<Longrightarrow> intercalate sep (x # ys) = x @ sep @ intercalate sep ys"
  by (cases ys) simp_all

lemma intercalate_split:
  "intercalate sep (xs @ y # zs)
   = concat (map (\<lambda>x. x @ sep) xs) @ y @ concat (map (\<lambda>z. sep @ z) zs)"
proof (induction xs)
  case Nil
  show ?case by (simp add: intercalate_Cons)
next
  case (Cons x xs)
  have "intercalate sep ((x # xs) @ y # zs) = x @ sep @ intercalate sep (xs @ y # zs)"
    by (simp add: intercalate_nonempty)
  with Cons show ?case by simp
qed

lemma stringify_obj_cancel:
  assumes "stringify R (JObj (xs @ (k, a) # zs)) = stringify R (JObj (xs @ (k, b) # zs))"
  shows "stringify R a = stringify R b"
  using assms by (simp add: intercalate_split)

lemma replaceValue_same:
  "replaceValue key (f key) (map (\<lambda>k. (k, f k)) ord) = map (\<lambda>k. (k, f k)) ord"
  by (induction ord) simp_all

lemma insertIndex_keys:
  "insertIndex i key (f key) (map (\<lambda>k. (k, f k)) ord)
   = map (\<lambda>k. (k, f k)) (map fst (insertIndex i key () (map (\<lambda>k. (k, ())) ord)))"
  by (induction ord) (simp_all split: option.splits)

lemma assign_keys:
  "assign (map (\<lambda>k. (k, f k)) ord) key (f key)
   = map (\<lambda>k. (k, f k)) (map fst (assign (map (\<lambda>k. (k, ())) ord) key ()))"
proof -
  have img: "fst ` set (map (\<lambda>k. (k, h k)) ord) = set ord" for h :: "string \<Rightarrow> 'b"
    by force
  show ?thesis
    unfolding assign_def img
    using replaceValue_same [of key f ord] replaceValue_same [of key "\<lambda>_. ()" ord]
      insertIndex_keys [of _ key f ord]
    by (simp add: comp_def split: option.splits)
qed

lemma assign_units: "map (\<lambda>k. (k, ())) (map fst acc) = (acc :: (string \<times> unit) list)"
  by (induction acc) auto

lemma foldl_assign_keys:
  "foldl (\<lambda>acc key. assign acc key (f key)) (map (\<lambda>k. (k, f k)) ord) ks
   = map (\<lambda>k. (k, f k)) (map fst (foldl (\<lambda>acc key. assign acc key ()) (map (\<lambda>k. (k, ())) ord) ks))"
proof (induction ks arbitrary: ord)
  case Nil
  show ?case by (simp add: comp_def)
next
  case (Cons key ks)
  let ?ord' = "map fst (assign (map (\<lambda>k. (k, ())) ord) key ())"
  have "foldl (\<lambda>acc key. assign acc key (f key)) (map (\<lambda>k. (k, f k)) ord) (key # ks)
      = foldl (\<lambda>acc key. assign acc key (f key)) (map (\<lambda>k. (k, f k)) ?ord') ks"
    by (simp add: assign_keys)
  also have "\<dots> = map (\<lambda>k. (k, f k))
      (map fst (foldl (\<lambda>acc key. assign acc key ()) (map (\<lambda>k. (k, ())) ?ord') ks))"
    by (rule Cons.IH)
  also have "map (\<lambda>k. (k, ())) ?ord' = assign (map (\<lambda>k. (k, ())) ord) key ()"
    by (rule assign_units)
  finally show ?case by simp
qed

lemma stableObject_order:
  "stableObject (JObj kvs)
   = JObj (map (\<lambda>k. (k, stableObject (the (map_of kvs k)))) (propertyOrder (map fst kvs)))"
  using foldl_assign_keys [of "\<lambda>k. stableObject (the (map_of kvs k))" "[]" "sort (map fst kvs)"]
  by (simp add: propertyOrder_def)

lemma replaceValue_fst: "map fst (replaceValue key v acc) = map fst acc"
  by (induction acc) auto

lemma replaceValue_keys: "fst ` set (replaceValue key v acc) = fst ` set acc"
  using replaceValue_fst [of key v acc] by (metis set_map)

lemma insertIndex_set: "fst ` set (insertIndex i key v acc) = insert key (fst ` set acc)"
proof (induction acc)
  case Nil
  show ?case by simp
next
  case (Cons a acc)
  then show ?case
    by (cases a) (auto simp: insert_commute split: option.splits)
qed

lemma insertIndex_distinct:
  "distinct (map fst acc) \<Longrightarrow> key \<notin> fst ` set acc \<Longrightarrow> distinct (map fst (insertIndex i key v acc))"
proof (induction acc)
  case Nil
  show ?case by simp
next
  case (Cons a acc)
  then show ?case
    by (cases a) (auto simp: insertIndex_set split: option.splits)
qed

lemma assign_set:
  "fst ` set (assign acc key v)
   = (if key = ''__proto__'' then fst ` set acc else insert key (fst ` set acc))"
  by (simp add: assign_def replaceValue_keys insertIndex_set insert_absorb split: option.splits)

lemma assign_distinct: "distinct (map fst acc) \<Longrightarrow> distinct (map fst (assign acc key v))"
  by (simp add: assign_def replaceValue_fst insertIndex_distinct split: option.splits)

lemma foldl_assign_set:
  "fst ` set (foldl (\<lambda>acc key. assign acc key (h key)) acc ks)
   = fst ` set acc \<union> (set ks - {''__proto__''})"
proof (induction ks arbitrary: acc)
  case Nil
  show ?case by simp
next
  case (Cons k ks)
  show ?case
    unfolding foldl_Cons Cons.IH assign_set by auto
qed

lemma foldl_assign_distinct:
  "distinct (map fst acc) \<Longrightarrow> distinct (map fst (foldl (\<lambda>acc key. assign acc key (h key)) acc ks))"
  by (induction ks arbitrary: acc) (simp_all add: assign_distinct)

lemma propertyOrder_set: "set (propertyOrder ks) = set ks - {''__proto__''}"
  using foldl_assign_set [of "\<lambda>_. ()" "[]" "sort ks"] by (simp add: propertyOrder_def)

lemma propertyOrder_distinct: "distinct (propertyOrder ks)"
  using foldl_assign_distinct [of "[]" "\<lambda>_. ()" "sort ks"] by (simp add: propertyOrder_def)

lemma map_of_replaceValue:
  "map_of (replaceValue key v kvs) = (if key \<in> fst ` set kvs then (map_of kvs)(key \<mapsto> v) else map_of kvs)"
proof (induction kvs)
  case Nil
  show ?case by simp
next
  case (Cons a kvs)
  then show ?case by (cases a) (auto simp: fun_upd_twist)
qed

lemma getProp_setProp:
  "getProp (setProp k x v) k' = (if k' = k \<and> getProp v k \<noteq> None then Some x else getProp v k')"
  by (cases v) (auto simp: map_of_replaceValue map_of_eq_None_iff)

lemma isObject_setProp [simp]: "isObject (setProp k x v) = isObject v"
  by (cases v) simp_all

lemma stableStringify_setProp:
  assumes a: "getProp v k = Some a" and k: "k \<noteq> ''__proto__''"
    and eq: "stableStringify R (setProp k b v) = stableStringify R v"
  shows "stableStringify R b = stableStringify R a"
proof -
  from a obtain kvs where v: "v = JObj kvs" and m: "map_of kvs k = Some a"
    by (cases v) auto
  let ?ord = "propertyOrder (map fst kvs)"
  let ?g = "\<lambda>k. (k, stableObject (the (map_of kvs k)))"
  let ?g' = "\<lambda>k. (k, stableObject (the (map_of (replaceValue k b kvs) k)))"
  from m have kin: "k \<in> fst ` set kvs"
    by (cases "k \<in> fst ` set kvs") (simp_all add: map_of_eq_None_iff [symmetric])
  with k have "k \<in> set ?ord"
    by (simp add: propertyOrder_set)
  then obtain pre post where ord: "?ord = pre @ k # post"
    by (meson split_list)
  with propertyOrder_distinct [of "map fst kvs"] have notin: "k \<notin> set pre" "k \<notin> set post"
    by auto
  have upd: "map_of (replaceValue k b kvs) = (map_of kvs)(k \<mapsto> b)"
    using kin by (simp add: map_of_replaceValue)
  have pre: "map (\<lambda>x. (x, stableObject (the (map_of (replaceValue k b kvs) x)))) pre = map ?g pre"
    using notin(1) by (auto simp: upd)
  have post: "map (\<lambda>x. (x, stableObject (the (map_of (replaceValue k b kvs) x)))) post = map ?g post"
    using notin(2) by (auto simp: upd)
  have 1: "stableObject v = JObj (map ?g pre @ (k, stableObject a) # map ?g post)"
    unfolding v stableObject_order ord using m by simp
  have 2: "stableObject (setProp k b v) = JObj (map ?g pre @ (k, stableObject b) # map ?g post)"
    unfolding v setProp.simps stableObject_order replaceValue_fst ord
    by (simp add: pre post) (simp add: upd)
  from eq have "stringify R (JObj (map ?g pre @ (k, stableObject b) # map ?g post))
      = stringify R (JObj (map ?g pre @ (k, stableObject a) # map ?g post))"
    unfolding stableStringify_def 1 2 .
  then show ?thesis
    unfolding stableStringify_def by (rule stringify_obj_cancel)
qed

lemma quoteJSONString_differs:
  "c \<noteq> c' \<Longrightarrow> quoteJSONString (s1 @ c # s2) \<noteq> quoteJSONString (s1 @ c' # s2)"
  by (auto simp: quoteJSONString_def dest: escapeChar_inj)

lemma digest_change_visible:
  assumes dist: "getProp v ''dist'' = Some dist"
    and sha: "getProp dist ''sha256'' = Some (JStr (s1 @ c # s2))"
    and change: "c' \<noteq> c"
  shows "stableStringify R (setProp ''dist'' (setProp ''sha256'' (JStr (s1 @ c' # s2)) dist) v)
      \<noteq> stableStringify R v"
proof
  assume "stableStringify R (setProp ''dist'' (setProp ''sha256'' (JStr (s1 @ c' # s2)) dist) v)
      = stableStringify R v"
  from stableStringify_setProp [OF dist _ this]
  have "stableStringify R (setProp ''sha256'' (JStr (s1 @ c' # s2)) dist) = stableStringify R dist"
    by simp
  from stableStringify_setProp [OF sha _ this]
  have "stableStringify R (JStr (s1 @ c' # s2)) = stableStringify R (JStr (s1 @ c # s2))"
    by simp
  then have "quoteJSONString (s1 @ c' # s2) = quoteJSONString (s1 @ c # s2)"
    by (simp add: stableStringify_def)
  with change quoteJSONString_differs show False
    by blast
qed

subsection \<open>The run on the changed document\<close>

lemma distCheck_passed:
  assumes "distCheck R lbl v = Inr []"
  shows "truthy R (getProp v ''dist'')
    \<and> propO (getProp v ''dist'') ''type'' = Some (JStr ''tgz'')
    \<and> isNonEmptyString (propO (getProp v ''dist'') ''url'')
    \<and> (\<exists>s. strOrEmpty R (propO (getProp v ''dist'') ''sha256'') = Inr s \<and> isValidSha256 (toLowerCase s))
    \<and> distUrlCheck R lbl (strOf (propO (getProp v ''dist'') ''url'')) = []"
  using assms
  by (auto simp: distCheck_def Let_def bindE_eq_Inr split: if_splits)

lemma checkVersion_changed_digest:
  assumes base: "checkVersion R pid bvs seen v = Inr ([], seen', [])"
    and dist: "getProp v ''dist'' = Some dist"
    and sha: "getProp dist ''sha256'' = Some (JStr (s1 @ c # s2))"
    and change: "c' \<noteq> c"
  shows "\<exists>lbl. versionLabel R pid v = Inr lbl
    \<and> isNonEmptyString (getProp v ''version'')
    \<and> checkVersion R pid bvs seen (setProp ''dist'' (setProp ''sha256'' (JStr (s1 @ c' # s2)) dist) v)
      = Inr ((if isValidSha256 (toLowerCase (s1 @ c' # s2)) then [] else [distShapeMsg lbl])
              @ [versionMsg lbl '' modifies existing version''], seen', [])"
proof -
  let ?D = "setProp ''sha256'' (JStr (s1 @ c' # s2)) dist"
  let ?V = "setProp ''dist'' ?D v"
  from dist have obj: "isObject v"
    by (cases v) auto
  from checkVersion_object [OF base obj] obtain lbl tl where
    lbl: "versionLabel R pid v = Inr lbl" and
    idc: "versionIdCheck R lbl pid seen v = Inr ([], seen')" and
    dc: "distCheck R lbl v = Inr []" and
    ec: "entryCheck R lbl v = []" and
    pc: "permissionsCheck R lbl v = []" and
    tl: "case mapGet bvs (getProp v ''version'') of
            Some bv \<Rightarrow> [] = modifiedCheck R lbl bv v
          | None \<Rightarrow> queueDownload R lbl v = Inr []"
    by (auto split: option.splits)
  note ok = distCheck_passed [OF dc]
  from ok dist have url: "isNonEmptyString (getProp dist ''url'')" and
    type: "getProp dist ''type'' = Some (JStr ''tgz'')" and
    urls: "distUrlCheck R lbl (strOf (getProp dist ''url'')) = []"
    by simp_all
  from url have urlt: "truthy R (getProp dist ''url'')"
    by (rule isNonEmptyString_truthy)
  have "queueDownload R lbl v \<noteq> Inr []"
    using dist sha urlt by (simp add: queueDownload_def Let_def)
  with tl obtain bv where bv: "mapGet bvs (getProp v ''version'') = Some bv"
    and same: "modifiedCheck R lbl bv v = []"
    by (cases "mapGet bvs (getProp v ''version'')") auto
  from same have canon: "stableStringify R bv = stableStringify R v"
    by (simp add: modifiedCheck_def split: if_splits)
  from digest_change_visible [OF dist sha change, of R] canon
  have differs: "stableStringify R bv \<noteq> stableStringify R ?V"
    by simp
  have props: "getProp ?V ''version'' = getProp v ''version''"
    "getProp ?V ''entry'' = getProp v ''entry''"
    "getProp ?V ''permissions'' = getProp v ''permissions''"
    "getProp ?V ''dist'' = Some ?D"
    using dist by (simp_all add: getProp_setProp)
  have dprops: "getProp ?D ''type'' = getProp dist ''type''"
    "getProp ?D ''url'' = getProp dist ''url''"
    "getProp ?D ''sha256'' = Some (JStr (s1 @ c' # s2))"
    using sha by (simp_all add: getProp_setProp)
  from type have dt: "truthy R (Some ?D)"
    by (cases dist) auto
  have "versionLabel R pid ?V = versionLabel R pid v"
    by (simp add: versionLabel_def props)
  with lbl have 1: "versionLabel R pid ?V = Inr lbl"
    by simp
  have "versionIdCheck R lbl pid seen ?V = versionIdCheck R lbl pid seen v"
    by (simp add: versionIdCheck_def props)
  with idc have 2: "versionIdCheck R lbl pid seen ?V = Inr ([], seen')"
    by simp
  have "entryCheck R lbl ?V = entryCheck R lbl v"
    by (simp add: entryCheck_def props)
  with ec have 3: "entryCheck R lbl ?V = []"
    by simp
  have "permissionsCheck R lbl ?V = permissionsCheck R lbl v"
    by (simp add: permissionsCheck_def props)
  with pc have 4: "permissionsCheck R lbl ?V = []"
    by simp
  have 5: "distCheck R lbl ?V = Inr (if isValidSha256 (toLowerCase (s1 @ c' # s2)) then [] else [distShapeMsg lbl])"
    using type url urls dt
    by (simp add: distCheck_def Let_def props dprops strOrEmpty_def)
  have 6: "modifiedCheck R lbl bv ?V = [versionMsg lbl '' modifies existing version'']"
    using differs by (simp add: modifiedCheck_def)
  have "checkVersion R pid bvs seen ?V
      = Inr ((if isValidSha256 (toLowerCase (s1 @ c' # s2)) then [] else [distShapeMsg lbl])
              @ [versionMsg lbl '' modifies existing version''], seen', [])"
    using obj bv by (simp add: checkVersion_def 1 2 3 4 5 6 props Let_def)
  moreover from idc have "isNonEmptyString (getProp v ''version'')"
    by (auto simp: versionIdCheck_def split: if_splits)
  ultimately show ?thesis
    using lbl by blast
qed

lemma versionLoop_replace:
  assumes step: "\<And>seen seen'. checkVersion R pid bvs seen v = Inr ([], seen', [])
            \<Longrightarrow> checkVersion R pid bvs seen v' = Inr (E, seen', [])"
    and run: "versionLoop R pid bvs seen (vs @ v # vs') = Inr ([], [])"
  shows "versionLoop R pid bvs seen (vs @ v' # vs') = Inr (E, [])"
  using run
proof (induction vs arbitrary: seen)
  case Nil
  then obtain s1 where "checkVersion R pid bvs seen v = Inr ([], s1, [])"
    "versionLoop R pid bvs s1 vs' = Inr ([], [])"
    by (auto simp: bindE_eq_Inr)
  with step [of seen s1] show ?case by simp
next
  case (Cons a vs)
  then obtain s1 where a: "checkVersion R pid bvs seen a = Inr ([], s1, [])"
    and r: "versionLoop R pid bvs s1 (vs @ v # vs') = Inr ([], [])"
    by (auto simp: bindE_eq_Inr)
  from Cons.IH [OF r] a show ?case by simp
qed

lemma walkPlugins_replace:
  assumes step: "walkPlugin R bpm p = Inr ([], []) \<Longrightarrow> walkPlugin R bpm p' = Inr (E, [])"
    and run: "walkPlugins R bpm (ps @ p # ps') = Inr ([], [])"
  shows "walkPlugins R bpm (ps @ p' # ps') = Inr (E, [])"
  using run
proof (induction ps)
  case Nil
  then have "walkPlugin R bpm p = Inr ([], [])" "walkPlugins R bpm ps' = Inr ([], [])"
    by (auto simp: bindE_eq_Inr)
  with step show ?case by simp
next
  case (Cons a ps)
  then have a: "walkPlugin R bpm a = Inr ([], [])"
    and r: "walkPlugins R bpm (ps @ p # ps') = Inr ([], [])"
    by (auto simp: bindE_eq_Inr)
  from Cons.IH [OF r] a show ?case by simp
qed

lemma segment_Nil: "segment xs [] \<Longrightarrow> xs = []"
  by (simp add: segment_def)

lemma map_of_mapSet: "map_of (mapSet m k v) = (map_of m)(k \<mapsto> v)"
proof (induction m)
  case Nil
  show ?case by simp
next
  case (Cons a m)
  then show ?case by (cases a) (auto simp: fun_upd_twist)
qed

lemma isObject_truthy: "isObject v \<Longrightarrow> truthy R (Some v)"
  by (cases v) simp_all

lemma removalCheck_cong:
  assumes "\<And>k. truthy R (map_of prm' k) = truthy R (map_of prm k)"
  shows "removalCheck R bpm prm' = removalCheck R bpm prm"
  by (simp add: removalCheck_def assms)

lemma prPluginLoop_sim:
  assumes "list_all2 (\<lambda>a b. isObject b = isObject a \<and> getProp b ''id'' = getProp a ''id''
                        \<and> (\<forall>ids. checkPlugin R ids b = checkPlugin R ids a)) xs ys"
    and "\<And>k. truthy R (map_of m' k) = truthy R (map_of m k)"
    and "prPluginLoop R xs ids m = Inr (es, prm)"
  shows "\<exists>prm'. prPluginLoop R ys ids m' = Inr (es, prm')
      \<and> (\<forall>k. truthy R (map_of prm' k) = truthy R (map_of prm k))"
  using assms
proof (induction arbitrary: ids m m' es rule: list_all2_induct)
  case Nil
  then show ?case by simp
next
  case (Cons a xs b ys)
  show ?case
  proof (cases "isObject a")
    case False
    with Cons.prems(2) obtain es1 where
      r: "prPluginLoop R xs ids m = Inr (es1, prm)" and
      es: "es = ''pr index.json: plugin entry must be an object'' # es1"
      by (auto simp: bindE_eq_Inr)
    from Cons.IH [OF Cons.prems(1) r] obtain prm' where
      "prPluginLoop R ys ids m' = Inr (es1, prm')"
      "\<forall>k. truthy R (map_of prm' k) = truthy R (map_of prm k)"
      by blast
    with False Cons.hyps(1) es show ?thesis by simp
  next
    case True
    with Cons.prems(2) obtain e1 ids1 e2 where
      c: "checkPlugin R ids a = Inr (e1, ids1)" and
      r: "prPluginLoop R xs ids1 (mapSet m (getProp a ''id'') a) = Inr (e2, prm)" and
      es: "es = e1 @ e2"
      by (auto simp: bindE_eq_Inr)
    from True Cons.hyps(1) have b: "isObject b" "getProp b ''id'' = getProp a ''id''"
      "checkPlugin R ids b = Inr (e1, ids1)"
      using c by simp_all
    have maps: "truthy R (map_of (mapSet m' (getProp a ''id'') b) k)
        = truthy R (map_of (mapSet m (getProp a ''id'') a) k)" for k
      using Cons.prems(1) [of k] True b(1)
      by (simp add: map_of_mapSet isObject_truthy)
    from Cons.IH [OF maps r] obtain prm' where
      "prPluginLoop R ys ids1 (mapSet m' (getProp a ''id'') b) = Inr (e2, prm')"
      "\<forall>k. truthy R (map_of prm' k) = truthy R (map_of prm k)"
      by blast
    with b es show ?thesis by simp
  qed
qed

lemma checkPlugin_versions:
  assumes "getProp p ''versions'' = Some (JArr (xs @ x # xs'))"
  shows "checkPlugin R ids (setProp ''versions'' (JArr (ys @ y # ys')) p) = checkPlugin R ids p"
  using assms by (simp add: checkPlugin_def getProp_setProp)

lemma validateIndexShape_setProp:
  assumes "validateIndexShape R base lbl = Inr ([], xs)"
    and "getProp base ''plugins'' = Some (JArr xs)"
  shows "validateIndexShape R (setProp ''plugins'' (JArr ys) base) lbl = Inr ([], ys)"
proof -
  from assms(2) obtain kvs where base: "base = JObj kvs"
    by (cases base) auto
  have props: "getProp (setProp ''plugins'' (JArr ys) base) ''schemaVersion'' = getProp base ''schemaVersion''"
    "getProp (setProp ''plugins'' (JArr ys) base) ''name'' = getProp base ''name''"
    "getProp (setProp ''plugins'' (JArr ys) base) ''plugins'' = Some (JArr ys)"
    using assms(2) by (simp_all add: getProp_setProp)
  from assms(1) have "isNumOne R (getProp base ''schemaVersion'')" "isNonEmptyString (getProp base ''name'')"
    unfolding base by (auto simp: Let_def split: if_splits)
  with props show ?thesis
    unfolding base by (simp add: Let_def)
qed

lemma checkPlugin_id:
  assumes "checkPlugin R ids p = Inr ([], ids')"
  shows "isNonEmptyString (getProp p ''id'')"
  using assms
  by (auto simp: checkPlugin_def Let_def bindE_eq_Inr andThen_eq_Inr pluginIdCheck_def split: if_splits)

lemma prPluginLoop_member:
  assumes "prPluginLoop R xs ids m = Inr ([], prm)" "p \<in> set xs"
  shows "isObject p \<and> (\<exists>ids0 ids1. checkPlugin R ids0 p = Inr ([], ids1))"
  using assms
proof (induction xs arbitrary: ids m)
  case Nil
  then show ?case by simp
next
  case (Cons a xs)
  from Cons.prems(1) have obj: "isObject a"
    by (auto simp: bindE_eq_Inr split: if_splits)
  with Cons.prems(1) obtain ids1 where
    c: "checkPlugin R ids a = Inr ([], ids1)" and
    r: "prPluginLoop R xs ids1 (mapSet m (getProp a ''id'') a) = Inr ([], prm)"
    by (auto simp: bindE_eq_Inr)
  show ?case
  proof (cases "p = a")
    case True
    with obj c show ?thesis by blast
  next
    case False
    with Cons.prems(2) have "p \<in> set xs" by simp
    from Cons.IH [OF r this] show ?thesis .
  qed
qed

subsection \<open>A document without errors queues nothing against itself\<close>

lemma checkPlugin_clean:
  assumes "checkPlugin R ids p = Inr ([], ids')"
  shows "isNonEmptyString (getProp p ''id'') \<and> strOf (getProp p ''id'') \<notin> ids
    \<and> ids' = insert (strOf (getProp p ''id'')) ids"
  using assms
  by (auto simp: checkPlugin_def Let_def bindE_eq_Inr andThen_eq_Inr pluginIdCheck_def split: if_splits)

lemma prPluginLoop_clean:
  assumes "prPluginLoop R xs ids m = Inr ([], prm)"
  shows "distinct (map (\<lambda>p. strOf (getProp p ''id'')) xs)
    \<and> (\<forall>p \<in> set xs. isNonEmptyString (getProp p ''id'') \<and> strOf (getProp p ''id'') \<notin> ids)"
  using assms
proof (induction xs arbitrary: ids m)
  case Nil
  show ?case by simp
next
  case (Cons a xs)
  from Cons.prems have obj: "isObject a"
    by (auto simp: bindE_eq_Inr split: if_splits)
  with Cons.prems obtain ids1 where
    c: "checkPlugin R ids a = Inr ([], ids1)" and
    r: "prPluginLoop R xs ids1 (mapSet m (getProp a ''id'') a) = Inr ([], prm)"
    by (auto simp: bindE_eq_Inr)
  note a = checkPlugin_clean [OF c]
  from Cons.IH [OF r] a show ?case
    by auto
qed

lemma basePluginMap_lookup:
  assumes "distinct (map (\<lambda>p. strOf (getProp p ''id'')) bps)"
    and "\<forall>p \<in> set bps. isNonEmptyString (getProp p ''id'')"
    and "p \<in> set bps"
  shows "map_of (basePluginMap R bps) (strOf (getProp p ''id'')) = Some p"
  using assms
proof (induction bps rule: rev_induct)
  case Nil
  then show ?case by simp
next
  case (snoc a bps)
  from snoc.prems(2) have ida: "isNonEmptyString (getProp a ''id'')"
    by simp
  then have ta: "truthy R (Some a)"
    by (cases "getProp a ''id''") (auto intro: getProp_truthy)
  have step: "basePluginMap R (bps @ [a]) = mapSet (basePluginMap R bps) (strOf (getProp a ''id'')) a"
    using ida ta by (simp add: basePluginMap_def)
  show ?case
  proof (cases "p = a")
    case True
    then show ?thesis by (simp add: step map_of_mapSet)
  next
    case False
    with snoc.prems(3) have p: "p \<in> set bps"
      by simp
    from snoc.prems(1) have "strOf (getProp a ''id'') \<notin> (\<lambda>p. strOf (getProp p ''id'')) ` set bps"
      by simp
    with p have ne: "strOf (getProp p ''id'') \<noteq> strOf (getProp a ''id'')"
      by (metis imageI)
    from snoc.IH p snoc.prems(1,2) have "map_of (basePluginMap R bps) (strOf (getProp p ''id'')) = Some p"
      by simp
    with ne show ?thesis by (simp add: step map_of_mapSet)
  qed
qed

lemma baseVersions_step_keys:
  "fst ` set (foldl (\<lambda>m version.
              if truthy R (Some version) \<and> isNonEmptyString (getProp version ''version'')
              then mapSet m (strOf (getProp version ''version'')) version else m) m0 vs)
   = fst ` set m0 \<union> {strOf (getProp v ''version'') | v. v \<in> set vs \<and> isNonEmptyString (getProp v ''version'')}"
proof (induction vs arbitrary: m0)
  case Nil
  show ?case by simp
next
  case (Cons b vs)
  have t: "isNonEmptyString (getProp b ''version'') \<Longrightarrow> truthy R (Some b)"
    by (cases "getProp b ''version''") (auto intro: getProp_truthy)
  show ?case
    unfolding foldl_Cons Cons.IH using t
    by (auto simp: mapSet_keys)
qed

lemma baseVersionsOf_self:
  assumes "map_of bpm (strOf (getProp p ''id'')) = Some p"
    and "isNonEmptyString (getProp p ''id'')"
    and "v \<in> set (elements (getProp p ''versions''))"
    and "isNonEmptyString (getProp v ''version'')"
  shows "mapGet (baseVersionsOf R bpm p) (getProp v ''version'') \<noteq> None"
proof -
  from assms(3) have arr: "isArray (getProp p ''versions'')"
    by (cases "getProp p ''versions''" rule: isArray.cases) auto
  then have tp: "truthy R (Some p)"
    by (cases p) auto
  from assms(2) have idp: "getProp p ''id'' = Some (JStr (strOf (getProp p ''id'')))"
    by (rule isNonEmptyString_str)
  have get: "mapGet bpm (getProp p ''id'') = Some p"
    by (subst idp) (simp add: assms(1))
  from assms(3,4) have "strOf (getProp v ''version'') \<in> fst ` set (baseVersionsOf R bpm p)"
    using arr tp
    by (auto simp: baseVersionsOf_def get Let_def baseVersions_step_keys)
  then have "map_of (baseVersionsOf R bpm p) (strOf (getProp v ''version'')) \<noteq> None"
    by (simp add: map_of_eq_None_iff)
  moreover from assms(4) have "getProp v ''version'' = Some (JStr (strOf (getProp v ''version'')))"
    by (rule isNonEmptyString_str)
  ultimately show ?thesis
    by (metis mapGet.simps(1))
qed

lemma checkVersion_clean:
  assumes "checkVersion R pid bvs seen v = Inr ([], seen', q)"
  shows "isObject v \<and> isNonEmptyString (getProp v ''version'')
    \<and> (mapGet bvs (getProp v ''version'') \<noteq> None \<longrightarrow> q = [])"
proof -
  from assms have obj: "isObject v"
    by (auto simp: checkVersion_def bindE_eq_Inr split: if_splits)
  from checkVersion_object [OF assms obj] obtain lbl where
    idc: "versionIdCheck R lbl pid seen v = Inr ([], seen')" and
    q: "mapGet bvs (getProp v ''version'') \<noteq> None \<longrightarrow> q = []"
    by (auto split: option.splits)
  from idc have "isNonEmptyString (getProp v ''version'')"
    by (auto simp: versionIdCheck_def split: if_splits)
  with obj q show ?thesis by simp
qed

lemma versionLoop_clean:
  assumes "versionLoop R pid bvs seen vs = Inr ([], q)"
    and "\<And>v. v \<in> set vs \<Longrightarrow> isNonEmptyString (getProp v ''version'')
            \<Longrightarrow> mapGet bvs (getProp v ''version'') \<noteq> None"
  shows "q = []"
  using assms
proof (induction vs arbitrary: seen q)
  case Nil
  then show ?case by simp
next
  case (Cons a vs)
  from Cons.prems(1) obtain s1 q1 q2 where
    a: "checkVersion R pid bvs seen a = Inr ([], s1, q1)" and
    r: "versionLoop R pid bvs s1 vs = Inr ([], q2)" and q: "q = q1 @ q2"
    by (auto simp: bindE_eq_Inr)
  from checkVersion_clean [OF a] Cons.prems(2) [of a] have "q1 = []"
    by simp
  moreover from Cons.IH [OF r] Cons.prems(2) have "q2 = []"
    by simp
  ultimately show ?case using q by simp
qed

lemma walkPlugins_clean:
  assumes "walkPlugins R bpm xs = Inr ([], q)"
    and "\<And>p. p \<in> set xs \<Longrightarrow> map_of bpm (strOf (getProp p ''id'')) = Some p \<and> isNonEmptyString (getProp p ''id'')"
  shows "q = []"
  using assms
proof (induction xs arbitrary: q)
  case Nil
  then show ?case by simp
next
  case (Cons a xs)
  from Cons.prems(1) obtain q1 q2 where
    a: "walkPlugin R bpm a = Inr ([], q1)" and
    r: "walkPlugins R bpm xs = Inr ([], q2)" and q: "q = q1 @ q2"
    by (auto simp: bindE_eq_Inr)
  have "q1 = []"
  proof (cases "isObject a \<and> isArray (getProp a ''versions'')")
    case False
    with a show ?thesis by (auto simp: walkPlugin_def split: if_splits)
  next
    case True
    with a have vl: "versionLoop R (getProp a ''id'') (baseVersionsOf R bpm a) {}
        (elements (getProp a ''versions'')) = Inr ([], q1)"
      by (simp add: walkPlugin_def)
    from Cons.prems(2) [of a] have "map_of bpm (strOf (getProp a ''id'')) = Some a"
      "isNonEmptyString (getProp a ''id'')"
      by simp_all
    from vl baseVersionsOf_self [OF this] show ?thesis
      by (rule versionLoop_clean)
  qed
  moreover from Cons.IH [OF r] Cons.prems(2) have "q2 = []"
    by simp
  ultimately show ?case using q by simp
qed

lemma clean_run_queues_nothing:
  assumes "inspect R base base = Inr ([], q)"
  shows "q = []"
proof -
  from assms obtain e1 bps e2 pps e4 prm e6 where
    b: "validateIndexShape R base ''base index.json'' = Inr (e1, bps)" and
    p: "validateIndexShape R base ''pr index.json'' = Inr (e2, pps)" and
    l: "prPluginLoop R pps {} [] = Inr (e4, prm)" and
    w: "walkPlugins R (basePluginMap R bps) pps = Inr (e6, q)" and
    e: "e1 @ e2 @ (if \<not> strictEq R (getProp base ''name'') (getProp base ''name'')
                  then [''pr index.json: top-level name cannot be changed''] else [])
          @ e4 @ removalCheck R (basePluginMap R bps) prm @ e6 = []"
    by (auto simp: inspect_def bindE_eq_Inr Let_def)
  from validateIndexShape_plugins [OF b] validateIndexShape_plugins [OF p] have pps: "pps = bps"
    by simp
  from e have e4: "e4 = []" and e6: "e6 = []"
    by simp_all
  note clean = prPluginLoop_clean [OF l [unfolded e4 pps]]
  have "map_of (basePluginMap R bps) (strOf (getProp x ''id'')) = Some x \<and> isNonEmptyString (getProp x ''id'')"
    if "x \<in> set bps" for x
    using basePluginMap_lookup [of bps x R] clean that by simp
  with w [unfolded e6 pps] show ?thesis
    by (rule walkPlugins_clean)
qed

subsection \<open>One changed code unit\<close>

lemma inspect_clean:
  assumes "inspect R base base = Inr ([], [])"
  shows "\<exists>bps prm. validateIndexShape R base ''base index.json'' = Inr ([], bps)
      \<and> validateIndexShape R base ''pr index.json'' = Inr ([], bps)
      \<and> strictEq R (getProp base ''name'') (getProp base ''name'')
      \<and> prPluginLoop R bps {} [] = Inr ([], prm)
      \<and> removalCheck R (basePluginMap R bps) prm = []
      \<and> walkPlugins R (basePluginMap R bps) bps = Inr ([], [])"
proof -
  from assms obtain e1 bps e2 pps e4 prm e6 where
    b: "validateIndexShape R base ''base index.json'' = Inr (e1, bps)" and
    p: "validateIndexShape R base ''pr index.json'' = Inr (e2, pps)" and
    l: "prPluginLoop R pps {} [] = Inr (e4, prm)" and
    w: "walkPlugins R (basePluginMap R bps) pps = Inr (e6, [])" and
    e: "e1 @ e2 @ (if \<not> strictEq R (getProp base ''name'') (getProp base ''name'')
                  then [''pr index.json: top-level name cannot be changed''] else [])
          @ e4 @ removalCheck R (basePluginMap R bps) prm @ e6 = []"
    by (auto simp: inspect_def bindE_eq_Inr Let_def)
  from validateIndexShape_plugins [OF b] validateIndexShape_plugins [OF p] have "pps = bps"
    by simp
  with b p l w e show ?thesis
    by (auto split: if_splits)
qed

text \<open>
  Claim C3, as the code has it. The base document is well formed: walked against
  itself it gives no message. The pr document is the base
  document with one code unit of the \<^verbatim>\<open>dist.sha256\<close> string of one version changed.
  Then the plugin id \<open>i\<close> and the version \<open>n\<close> are strings, the run completes,
  \<^verbatim>\<open>ok\<close> is false, and the messages are: the \<^verbatim>\<open>modifies existing version\<close> message
  with the label \<open>i/n\<close>, once and last; before it the \<^verbatim>\<open>dist\<close> shape message of the
  same version when the changed digest is no longer 64 hexadecimal digits; and nothing
  else.
\<close>

theorem changed_digest_reported:
  assumes clean: "inspect R base base = Inr ([], q)"
    and plugins: "getProp base ''plugins'' = Some (JArr (ps @ p # ps'))"
    and versions: "getProp p ''versions'' = Some (JArr (vs @ v # vs'))"
    and dist: "getProp v ''dist'' = Some dist"
    and sha: "getProp dist ''sha256'' = Some (JStr (s1 @ c # s2))"
    and change: "c' \<noteq> c"
  shows "\<exists>i n. getProp p ''id'' = Some (JStr i) \<and> getProp v ''version'' = Some (JStr n)
    \<and> validate R fetch base
        (setProp ''plugins''
           (JArr (ps @ setProp ''versions''
                         (JArr (vs @ setProp ''dist'' (setProp ''sha256'' (JStr (s1 @ c' # s2)) dist) v # vs'))
                         p # ps'))
           base)
      = Inr \<lparr>ok = False,
             errors = (if isValidSha256 (toLowerCase (s1 @ c' # s2)) then []
                       else [distShapeMsg (i @ ''/'' @ n)])
                      @ [versionMsg (i @ ''/'' @ n) '' modifies existing version'']\<rparr>"
proof -
  let ?V = "setProp ''dist'' (setProp ''sha256'' (JStr (s1 @ c' # s2)) dist) v"
  let ?P = "setProp ''versions'' (JArr (vs @ ?V # vs')) p"
  let ?pr = "setProp ''plugins'' (JArr (ps @ ?P # ps')) base"
  from clean clean_run_queues_nothing [OF clean] have wf: "inspect R base base = Inr ([], [])"
    by simp
  from inspect_clean [OF wf] obtain bps prm where
    vb: "validateIndexShape R base ''base index.json'' = Inr ([], bps)" and
    vp: "validateIndexShape R base ''pr index.json'' = Inr ([], bps)" and
    name: "strictEq R (getProp base ''name'') (getProp base ''name'')" and
    loop: "prPluginLoop R bps {} [] = Inr ([], prm)" and
    removal: "removalCheck R (basePluginMap R bps) prm = []" and
    walk: "walkPlugins R (basePluginMap R bps) bps = Inr ([], [])"
    by blast
  define bpm where "bpm = basePluginMap R bps"
  note removal = removal [folded bpm_def] and walk = walk [folded bpm_def]
  from validateIndexShape_plugins [OF vb] plugins have bps: "bps = ps @ p # ps'"
    by simp
  note loop = loop [unfolded bps] and walk = walk [unfolded bps]
    and vb = vb [unfolded bps] and vp = vp [unfolded bps]
  \<comment> \<open>the plugin and the version in the run on base\<close>
  from prPluginLoop_member [OF loop, of p] obtain ids0 ids1 where
    "checkPlugin R ids0 p = Inr ([], ids1)"
    by auto
  then have "isNonEmptyString (getProp p ''id'')"
    by (rule checkPlugin_id)
  then obtain i where i: "getProp p ''id'' = Some (JStr i)" and it: "truthy R (Some (JStr i :: 'a json))"
    using isNonEmptyString_str isNonEmptyString_truthy by metis
  from versions have pobj: "isObject p" and parr: "isArray (getProp p ''versions'')"
    by (cases p; simp)+
  from walkPlugins_member [OF walk, of p] obtain es0 q0 where
    "walkPlugin R bpm p = Inr (es0, q0)" "segment es0 []" "segment q0 []"
    by auto
  then have wp: "walkPlugin R bpm p = Inr ([], [])"
    by (simp add: segment_Nil)
  with pobj parr versions have vl: "versionLoop R (getProp p ''id'') (baseVersionsOf R bpm p) {} (vs @ v # vs') = Inr ([], [])"
    by (simp add: walkPlugin_def)
  from versionLoop_member [OF vl, of v] obtain seen0 es1 seen1 q1 where
    "checkVersion R (getProp p ''id'') (baseVersionsOf R bpm p) seen0 v = Inr (es1, seen1, q1)"
    "segment es1 []" "segment q1 []"
    by auto
  then have cv: "checkVersion R (getProp p ''id'') (baseVersionsOf R bpm p) seen0 v = Inr ([], seen1, [])"
    by (simp add: segment_Nil)
  from checkVersion_changed_digest [OF cv dist sha change] obtain lbl where
    lbl: "versionLabel R (getProp p ''id'') v = Inr lbl" and
    vn: "isNonEmptyString (getProp v ''version'')"
    by blast
  from vn obtain n where n: "getProp v ''version'' = Some (JStr n)" and nt: "truthy R (Some (JStr n :: 'a json))"
    using isNonEmptyString_str isNonEmptyString_truthy by metis
  from lbl i n it nt have lbl_eq: "lbl = i @ ''/'' @ n"
    by (simp add: versionLabel_def orUnknown_def)
  let ?E = "(if isValidSha256 (toLowerCase (s1 @ c' # s2)) then [] else [distShapeMsg lbl])
              @ [versionMsg lbl '' modifies existing version'']"
  \<comment> \<open>the run on the changed document\<close>
  have step: "checkVersion R (getProp p ''id'') (baseVersionsOf R bpm p) seen ?V = Inr (?E, seen', [])"
    if "checkVersion R (getProp p ''id'') (baseVersionsOf R bpm p) seen v = Inr ([], seen', [])"
    for seen seen'
    using checkVersion_changed_digest [OF that dist sha change] lbl by auto
  have vl': "versionLoop R (getProp p ''id'') (baseVersionsOf R bpm p) {} (vs @ ?V # vs') = Inr (?E, [])"
    using step vl by (rule versionLoop_replace)
  have pprops: "getProp ?P ''id'' = getProp p ''id''" "getProp ?P ''versions'' = Some (JArr (vs @ ?V # vs'))"
    using versions by (simp_all add: getProp_setProp)
  have "baseVersionsOf R bpm ?P = baseVersionsOf R bpm p"
    by (simp add: baseVersionsOf_def pprops)
  with vl' pobj have wp': "walkPlugin R bpm ?P = Inr (?E, [])"
    by (simp add: walkPlugin_def pprops)
  from wp' walk have walk': "walkPlugins R bpm (ps @ ?P # ps') = Inr (?E, [])"
    by (rule walkPlugins_replace)
  have sim: "list_all2 (\<lambda>a b. isObject b = isObject a \<and> getProp b ''id'' = getProp a ''id''
                        \<and> (\<forall>ids. checkPlugin R ids b = checkPlugin R ids a))
        (ps @ p # ps') (ps @ ?P # ps')"
    using checkPlugin_versions [OF versions, of R _ vs ?V vs']
    by (intro list_all2_appendI list_all2_refl list_all2_Cons [THEN iffD2] conjI) (simp_all add: pprops)
  from prPluginLoop_sim [OF sim _ loop, of "[]"] obtain prm' where
    loop': "prPluginLoop R (ps @ ?P # ps') {} [] = Inr ([], prm')" and
    maps: "\<forall>k. truthy R (map_of prm' k) = truthy R (map_of prm k)"
    by auto
  from maps removal have removal': "removalCheck R bpm prm' = []"
    using removalCheck_cong [of R prm' prm bpm] by simp
  have vpr: "validateIndexShape R ?pr ''pr index.json'' = Inr ([], ps @ ?P # ps')"
    using vp plugins by (rule validateIndexShape_setProp)
  have prname: "getProp ?pr ''name'' = getProp base ''name''"
    by (simp add: getProp_setProp)
  have bpm_eq: "basePluginMap R (ps @ p # ps') = bpm"
    by (simp add: bpm_def bps)
  have "inspect R base ?pr = Inr (?E, [])"
    using vb vpr name loop' removal' walk'
    by (simp add: inspect_def Let_def prname bpm_eq)
  then have "validate R fetch base ?pr = Inr \<lparr>ok = False, errors = ?E\<rparr>"
    by (simp add: validate_def)
  with i n lbl_eq show ?thesis
    by simp
qed

theorem changed_digest_reported_witness:
  "inspect sampleRuntime
     (sampleIndex [samplePlugin ''a'' [sampleVersion ''1.0.0'' ''https://x/a.tgz'' sampleDigest]])
     (sampleIndex [samplePlugin ''a'' [sampleVersion ''1.0.0'' ''https://x/a.tgz'' sampleDigest]])
   = Inr ([], [])
   \<and> CHR ''f'' \<noteq> CHR ''e''
   \<and> sampleDigest = [] @ CHR ''e'' # tl sampleDigest
   \<and> sampleOtherDigest = [] @ CHR ''f'' # tl sampleDigest
   \<and> validate sampleRuntime sampleFetch
       (sampleIndex [samplePlugin ''a'' [sampleVersion ''1.0.0'' ''https://x/a.tgz'' sampleDigest]])
       (sampleIndex [samplePlugin ''a'' [sampleVersion ''1.0.0'' ''https://x/a.tgz'' sampleOtherDigest]])
     = Inr \<lparr>ok = False, errors = [versionMsg ''a/1.0.0'' '' modifies existing version'']\<rparr>"
proof -
  let ?dist = "JObj [(''type'', JStr ''tgz''), (''url'', JStr ''https://x/a.tgz''),
                     (''sha256'', JStr sampleDigest)] :: int json"
  let ?v = "sampleVersion ''1.0.0'' ''https://x/a.tgz'' sampleDigest"
  let ?p = "samplePlugin ''a'' [?v]"
  let ?base = "sampleIndex [?p]"
  have wf: "inspect sampleRuntime ?base ?base = Inr ([], [])"
    by code_simp
  have plugins: "getProp ?base ''plugins'' = Some (JArr ([] @ ?p # []))"
    by (simp add: sampleIndex_def)
  have versions: "getProp ?p ''versions'' = Some (JArr ([] @ ?v # []))"
    by (simp add: samplePlugin_def)
  have dist: "getProp ?v ''dist'' = Some ?dist"
    by (simp add: sampleVersion_def)
  have e: "sampleDigest = [] @ CHR ''e'' # tl sampleDigest"
    by (simp add: sampleDigest_def)
  have f: "sampleOtherDigest = [] @ CHR ''f'' # tl sampleDigest"
    by (simp add: sampleDigest_def sampleOtherDigest_def)
  have sha: "getProp ?dist ''sha256'' = Some (JStr ([] @ CHR ''e'' # tl sampleDigest))"
    using e by simp
  have change: "CHR ''f'' \<noteq> CHR ''e''"
    by simp
  have pr: "setProp ''plugins''
           (JArr ([] @ setProp ''versions''
                         (JArr ([] @ setProp ''dist'' (setProp ''sha256'' (JStr ([] @ CHR ''f'' # tl sampleDigest)) ?dist) ?v # []))
                         ?p # []))
           ?base
     = sampleIndex [samplePlugin ''a'' [sampleVersion ''1.0.0'' ''https://x/a.tgz'' sampleOtherDigest]]"
    unfolding f [symmetric] by (simp add: sampleIndex_def samplePlugin_def sampleVersion_def)
  have valid: "isValidSha256 (toLowerCase ([] @ CHR ''f'' # tl sampleDigest))"
    unfolding f [symmetric] by code_simp
  have i: "getProp ?p ''id'' = Some (JStr ''a'')"
    by (simp add: samplePlugin_def)
  have n: "getProp ?v ''version'' = Some (JStr ''1.0.0'')"
    by (simp add: sampleVersion_def)
  from changed_digest_reported [OF wf plugins versions dist sha change, of sampleFetch]
  show ?thesis
    unfolding pr using wf e f valid i n by auto
qed

text \<open>
  The claim as worded fails, because it promises exactly one message. The base document
  below is well formed; the pr document changes the first digit of the digest to the
  letter \<^verbatim>\<open>z\<close>. The version is still checked for its shape, so the run reports two
  messages for it: the \<^verbatim>\<open>dist\<close> shape message and then
  \<^verbatim>\<open>modifies existing version\<close>.
\<close>

theorem changed_digest_counterexample:
  "inspect sampleRuntime
     (sampleIndex [samplePlugin ''a'' [sampleVersion ''1.0.0'' ''https://x/a.tgz'' sampleDigest]])
     (sampleIndex [samplePlugin ''a'' [sampleVersion ''1.0.0'' ''https://x/a.tgz'' sampleDigest]])
   = Inr ([], [])
   \<and> validate sampleRuntime sampleFetch
       (sampleIndex [samplePlugin ''a'' [sampleVersion ''1.0.0'' ''https://x/a.tgz'' sampleDigest]])
       (sampleIndex [samplePlugin ''a'' [sampleVersion ''1.0.0'' ''https://x/a.tgz'' sampleBadDigest]])
     = Inr \<lparr>ok = False,
            errors = [distShapeMsg ''a/1.0.0'',
                      versionMsg ''a/1.0.0'' '' modifies existing version'']\<rparr>
   \<and> sampleBadDigest = CHR ''z'' # tl sampleDigest"
  by code_simp

end
